theory Spec2Isabelle
  imports Main "HOL-Library.AList" "HOL-Library.Sublist"
begin

section \<open>The scenario generator of SUMOActivityGen (scenarioFromOSM.py)\<close>

text \<open>
  The script runs a fixed sequence of external tools on a map extract and glues their
  files together. The embedding follows the script function by function. Python names
  that start with an underscore lose it (\<open>_call_netconvert\<close> is \<open>call_netconvert\<close>).
  Diagnostic output through \<open>logging.info\<close> is not part of the model, and the imports
  at the head of the script are taken to succeed.
\<close>

subsection \<open>Artifact names\<close>

definition DEFAULT_NETCONVERT :: string where "DEFAULT_NETCONVERT = ''osm.netccfg''"
definition DEFAULT_NET_XML :: string where "DEFAULT_NET_XML = ''osm.net.xml''"
definition DEFAULT_PT_STOPS_XML :: string where "DEFAULT_PT_STOPS_XML = ''osm_stops.add.xml''"
definition DEFAULT_PT_LINES :: string where "DEFAULT_PT_LINES = ''osm_ptlines.xml''"
definition DEFAULT_SIDE_PARKING_XML :: string where "DEFAULT_SIDE_PARKING_XML = ''osm_parking.xml''"
definition DEFAULT_PT_FLOWS :: string where "DEFAULT_PT_FLOWS = ''osm_pt.rou.xml''"
definition DEFAULT_PARKING_AREAS :: string where
  "DEFAULT_PARKING_AREAS = ''osm_parking_areas.add.xml''"
definition DEFAULT_COMPLETE_PARKING_XML :: string where
  "DEFAULT_COMPLETE_PARKING_XML = ''osm_complete_parking_areas.add.xml''"
definition DEFAULT_PARKING_REROUTERS_XML :: string where
  "DEFAULT_PARKING_REROUTERS_XML = ''osm_parking_rerouters.add.xml''"
definition DEFAULT_POLY_XML :: string where "DEFAULT_POLY_XML = ''osm_polygons.add.xml''"
definition DEFAULT_TAZ_OUTPUT_XML :: string where "DEFAULT_TAZ_OUTPUT_XML = ''osm_taz.xml''"
definition DEFAULT_OD_OUTPUT_CSV :: string where "DEFAULT_OD_OUTPUT_CSV = ''osm_taz_weight.csv''"
definition DEFAULT_BUILDINGS_PREFIX :: string where
  "DEFAULT_BUILDINGS_PREFIX = ''buildings/osm_buildings''"
definition DEFAULT_ODMATRIX_AMITRAN_XML :: string where
  "DEFAULT_ODMATRIX_AMITRAN_XML = ''osm_odmatrix_amitran.xml''"
definition DEAFULT_GENERIC_AG_CONG :: string where "DEAFULT_GENERIC_AG_CONG = ''activitygen.json''"
definition DEAFULT_SPECIFIC_AG_CONG :: string where
  "DEAFULT_SPECIFIC_AG_CONG = ''osm_activitygen.json''"
definition DEFAULT_SUMOCFG :: string where "DEFAULT_SUMOCFG = ''osm.sumocfg''"

subsection \<open>XML documents\<close>

text \<open>
  An element of \<open>xml.etree.ElementTree\<close>: its tag, its attribute dictionary (insertion
  ordered, hence an association list), its text, its tail and its child elements. An
  element inside a document is addressed by the child positions leading to it from the
  root.
\<close>

datatype xml = Element (tag: string) (attrib: "(string \<times> string) list")
  (elem_text: string) (elem_tail: string) (children: "xml list")

type_synonym path = "nat list"

fun subtree :: "xml \<Rightarrow> path \<Rightarrow> xml option" where
  "subtree e [] = Some e"
| "subtree e (i # p) =
     (if i < length (children e) then subtree (children e ! i) p else None)"

text \<open>
  \<open>Element.iter(tag)\<close> yields the element itself when its tag matches and then, child
  by child, what the child's own \<open>iter\<close> yields (document order). The model yields the
  positions of the elements, which is what a Python reference to a node of the tree
  amounts to.
\<close>

fun iter :: "string \<Rightarrow> xml \<Rightarrow> path list"
  and iter_children :: "string \<Rightarrow> nat \<Rightarrow> xml list \<Rightarrow> path list" where
  "iter tg (Element t a tx ta cs) = (if t = tg then [[]] else []) @ iter_children tg 0 cs"
| "iter_children tg i [] = []"
| "iter_children tg i (c # cs) = map ((#) i) (iter tg c) @ iter_children tg (Suc i) cs"

text \<open>\<open>field.attrib[k] = v\<close> for the element at a position of the tree.\<close>

fun set_attrib :: "path \<Rightarrow> string \<Rightarrow> string \<Rightarrow> xml \<Rightarrow> xml" where
  "set_attrib [] k v (Element t a tx ta cs) = Element t (AList.update k v a) tx ta cs"
| "set_attrib (i # p) k v (Element t a tx ta cs) =
     (if i < length cs then Element t a tx ta (cs[i := set_attrib p k v (cs ! i)])
      else Element t a tx ta cs)"

text \<open>\<open>root.append(element)\<close> adds one child at the end.\<close>

definition append_child :: "xml \<Rightarrow> xml \<Rightarrow> xml" where
  "append_child element root =
     Element (tag root) (attrib root) (elem_text root) (elem_tail root) (children root @ [element])"

subsection \<open>Strings\<close>

text \<open>\<open>needle in haystack\<close> on Python strings.\<close>

fun str_contains :: "string \<Rightarrow> string \<Rightarrow> bool" where
  "str_contains needle [] = (needle = [])"
| "str_contains needle (c # cs) = (prefix needle (c # cs) \<or> str_contains needle cs)"

text \<open>\<open>s.strip(chars)\<close>: the characters of \<open>chars\<close> are removed from both ends.\<close>

definition str_strip :: "string \<Rightarrow> string \<Rightarrow> string" where
  "str_strip chars s =
     rev (dropWhile (\<lambda>c. c \<in> set chars) (rev (dropWhile (\<lambda>c. c \<in> set chars) s)))"

text \<open>\<open>s.split(sep)\<close> for a separator of one character: how a comma-joined list is read back.\<close>

fun str_split :: "char \<Rightarrow> string \<Rightarrow> string list" where
  "str_split sep [] = [[]]"
| "str_split sep (c # cs) =
     (if c = sep then [] # str_split sep cs
      else (case str_split sep cs of [] \<Rightarrow> [[c]] | w # ws \<Rightarrow> (c # w) # ws))"

text \<open>\<open>os.path.basename\<close>: what follows the last slash.\<close>

definition basename :: "string \<Rightarrow> string" where
  "basename p = rev (takeWhile (\<lambda>c. c \<noteq> CHR ''/'') (rev p))"

text \<open>
  \<open>os.path.dirname\<close>: what precedes the base name, without its trailing slashes unless
  it consists of slashes only.
\<close>

definition dirname :: "string \<Rightarrow> string" where
  "dirname p =
     (let head = rev (dropWhile (\<lambda>c. c \<noteq> CHR ''/'') (rev p)) in
      if list_all (\<lambda>c. c = CHR ''/'') head then head
      else rev (dropWhile (\<lambda>c. c = CHR ''/'') (rev head)))"

subsection \<open>Files, collaborators and the state of a run\<close>

text \<open>
  A directory entry is a parsed XML document, some other file, or a directory. A
  directory is the list of its entries in the order \<open>os.listdir\<close> reports them. Writing
  a document and parsing it again is taken to give the same tree.
\<close>

datatype content = XmlDoc xml | Blob | Dir

type_synonym directory = "(string \<times> content) list"

datatype error =
    FileNotFoundError string
  | FileExistsError string
  | IsADirectoryError string
  | NotADirectoryError string
  | SameFileError string
  | ParseError string
  | OSError string
  | SystemExit int
  | Exception string

datatype module =
    Ptlines2flows
  | GenerateParkingAreasFromOSM
  | GenerateParkingAreaRerouters
  | GenerateTAZBuildingsFromOSM
  | GenerateAmitranFromTAZWeights
  | GenerateDefaultsActivityGen
  | Activitygen

datatype func =
    Call_netconvert
  | Call_pt_lines_to_flows
  | Call_generate_parking_areas_from_osm
  | Merge_parking_files
  | Call_generate_parking_area_rerouters
  | Call_polyconvert
  | Call_generate_taz_buildings_from_osm
  | Call_generate_amitran_from_taz_weights
  | Call_generate_defaults_activitygen
  | Call_activitygen
  | Add_rou_to_default_sumocfg
  | Call_sumo

text \<open>
  What a run does to the outside world, in the order it does it. \<open>Enter f\<close> marks that
  the script's function \<open>f\<close> has been called.
\<close>

datatype event =
    Enter func
  | MakeDirs string
  | Copy string string
  | ChDir string
  | Subprocess "string list"
  | ModuleMain module "string list"
  | XmlParse string
  | XmlWrite string
  | ListDir
  | ProfilerEnable
  | ProfilerReport

record options =
  osm_file :: string
  out_dir :: string
  profiling :: bool
  left_hand_traffic :: bool

text \<open>
  The collaborators are parameters of the model. \<open>argparse\<close> is the parser that
  \<open>get_options\<close> configures (\<open>Inl status\<close>: argparse ends the process itself, with
  status 2 for a rejected command line and 0 after \<open>--help\<close>). \<open>spawn\<close> is an external executable run in the working directory: it
  cannot be started (\<open>Inl\<close>), or it leaves the directory in some state and returns an
  exit status. \<open>module_main\<close> is the \<open>main\<close> of an imported module: it raises (\<open>Inl\<close>)
  or leaves the directory in some state.
\<close>

record env =
  argparse :: "string list \<Rightarrow> int + options"
  spawn :: "string list \<Rightarrow> directory \<Rightarrow> error + (directory \<times> int)"
  module_main :: "module \<Rightarrow> string list \<Rightarrow> directory \<Rightarrow> error + directory"

text \<open>
  \<open>launch_files\<close> resolves a path as seen from the directory the script is started in
  (the map file, the \<open>defaults\<close> folder). \<open>workdir\<close> holds the entries of the output
  directory, which is the working directory once \<open>os.chdir\<close> has run. A path whose
  directory part is spelled as the output directory names an entry of \<open>workdir\<close>;
  \<open>same_file src dst\<close> tells that the path \<open>src\<close> names, through another spelling or
  a link, the existing entry of the directory \<open>dst\<close> that carries its base name
  (\<open>os.path.samefile\<close>). Failures of the file system other than the ones written out
  below (permissions, a full disk, a file in the place of a parent directory) are not
  modelled.
\<close>

record state =
  launch_files :: "string \<rightharpoonup> content"
  same_file :: "string \<Rightarrow> string \<Rightarrow> bool"
  workdir :: directory
  trace :: "event list"

text \<open>A call raises (with the state it leaves behind) or returns.\<close>

type_synonym 'a result = "(error \<times> state) + 'a"

definition log :: "event \<Rightarrow> state \<Rightarrow> state" where
  "log e s = s\<lparr>trace := trace s @ [e]\<rparr>"

fun final :: "state result \<Rightarrow> state" where
  "final (Inl (e, s)) = s"
| "final (Inr s) = s"

subsection \<open>Library calls\<close>

text \<open>
  \<open>os.makedirs(args.out_dir, exist_ok=True)\<close>, before the change of directory: it
  raises for the empty path and when the path names something that is not a directory.
\<close>

definition os_makedirs :: "string \<Rightarrow> state \<Rightarrow> state result" where
  "os_makedirs p s =
     (let s' = log (MakeDirs p) s in
      if p = [] then Inl (FileNotFoundError p, s')
      else case launch_files s p of
        None \<Rightarrow> Inr s'
      | Some Dir \<Rightarrow> Inr s'
      | Some _ \<Rightarrow> Inl (FileExistsError p, s'))"

text \<open>
  \<open>shutil.copy(src, args.out_dir)\<close>: the target is the entry of the output directory
  with the base name of the source (the directory itself when the base name is empty).
  A source that is this very entry makes the copy raise \<open>SameFileError\<close>; otherwise
  the source is opened for reading, then the target for writing, and the content lands
  in the output directory.
\<close>

definition shutil_copy :: "string \<Rightarrow> string \<Rightarrow> state \<Rightarrow> state result" where
  "shutil_copy src dst s =
     (let s' = log (Copy src dst) s; name = basename src in
      if dirname src = dst then
        (if name = [] \<or> map_of (workdir s) name \<noteq> None then Inl (SameFileError src, s')
         else Inl (FileNotFoundError src, s'))
      else if same_file s src dst then Inl (SameFileError src, s')
      else
        (case launch_files s src of
           None \<Rightarrow> Inl (FileNotFoundError src, s')
         | Some Dir \<Rightarrow> Inl (IsADirectoryError src, s')
         | Some c \<Rightarrow>
             if name = [] then Inl (NotADirectoryError src, s')
             else
               (case map_of (workdir s) name of
                  Some Dir \<Rightarrow> Inl (IsADirectoryError name, s')
                | _ \<Rightarrow> Inr (s'\<lparr>workdir := AList.update name c (workdir s')\<rparr>))))"

definition os_chdir :: "string \<Rightarrow> state \<Rightarrow> state result" where
  "os_chdir p s = Inr (log (ChDir p) s)"

text \<open>\<open>os.makedirs(name, exist_ok=True)\<close> inside the working directory.\<close>

definition os_makedirs_cwd :: "string \<Rightarrow> state \<Rightarrow> state result" where
  "os_makedirs_cwd name s =
     (let s' = log (MakeDirs name) s in
      if name = [] then Inl (FileNotFoundError name, s')
      else case map_of (workdir s) name of
        None \<Rightarrow> Inr (s'\<lparr>workdir := workdir s' @ [(name, Dir)]\<rparr>)
      | Some Dir \<Rightarrow> Inr s'
      | Some _ \<Rightarrow> Inl (FileExistsError name, s'))"

definition os_listdir :: "state \<Rightarrow> string list \<times> state" where
  "os_listdir s = (map fst (workdir s), log ListDir s)"

definition ElementTree_parse :: "string \<Rightarrow> state \<Rightarrow> (xml \<times> state) result" where
  "ElementTree_parse name s =
     (let s' = log (XmlParse name) s in
      case map_of (workdir s) name of
        None \<Rightarrow> Inl (FileNotFoundError name, s')
      | Some (XmlDoc root) \<Rightarrow> Inr (root, s')
      | Some Blob \<Rightarrow> Inl (ParseError name, s')
      | Some Dir \<Rightarrow> Inl (IsADirectoryError name, s'))"

text \<open>\<open>ElementTree(root).write(open(name, 'wb'))\<close>.\<close>

definition ElementTree_write :: "string \<Rightarrow> xml \<Rightarrow> state \<Rightarrow> state result" where
  "ElementTree_write name root s =
     (let s' = log (XmlWrite name) s in
      case map_of (workdir s) name of
        Some Dir \<Rightarrow> Inl (IsADirectoryError name, s')
      | _ \<Rightarrow> Inr (s'\<lparr>workdir := AList.update name (XmlDoc root) (workdir s')\<rparr>))"

text \<open>\<open>subprocess.call(argv)\<close> returns the exit status of the process.\<close>

definition subprocess_call :: "env \<Rightarrow> string list \<Rightarrow> state \<Rightarrow> (int \<times> state) result" where
  "subprocess_call env argv s =
     (let s' = log (Subprocess argv) s in
      case spawn env argv (workdir s) of
        Inl e \<Rightarrow> Inl (e, s')
      | Inr (d, status) \<Rightarrow> Inr (status, s'\<lparr>workdir := d\<rparr>))"

definition call_module :: "env \<Rightarrow> module \<Rightarrow> string list \<Rightarrow> state \<Rightarrow> state result" where
  "call_module env m argv s =
     (let s' = log (ModuleMain m argv) s in
      case module_main env m argv (workdir s) of
        Inl e \<Rightarrow> Inl (e, s')
      | Inr d \<Rightarrow> Inr (s'\<lparr>workdir := d\<rparr>))"

subsection \<open>The stages\<close>

definition netconvert_options :: "string \<Rightarrow> bool \<Rightarrow> string list" where
  "netconvert_options filename lefthand =
     (let netconvert_options =
        [''netconvert'',
         ''-c'', DEFAULT_NETCONVERT,
         ''--osm'', filename,
         ''-o'', DEFAULT_NET_XML,
         ''--ptstop-output'', DEFAULT_PT_STOPS_XML,
         ''--ptline-output'', DEFAULT_PT_LINES,
         ''--parking-output'', DEFAULT_SIDE_PARKING_XML]
      in if lefthand then netconvert_options @ [''--lefthand''] else netconvert_options)"

text \<open>The status that \<open>subprocess.call\<close> returns is dropped: the call is a statement.\<close>

definition call_netconvert :: "env \<Rightarrow> string \<Rightarrow> bool \<Rightarrow> state \<Rightarrow> state result" where
  "call_netconvert env filename lefthand s =
     (case subprocess_call env (netconvert_options filename lefthand) (log (Enter Call_netconvert) s) of
        Inl x \<Rightarrow> Inl x
      | Inr (status, s') \<Rightarrow> Inr s')"

definition pt_flows_options :: "string list" where
  "pt_flows_options =
     [''-n'', DEFAULT_NET_XML,
      ''-e'', ''86400'',
      ''-p'', ''600'',
      ''--random-begin'',
      ''--seed'', ''42'',
      ''--ptstops'', DEFAULT_PT_STOPS_XML,
      ''--ptlines'', DEFAULT_PT_LINES,
      ''-o'', DEFAULT_PT_FLOWS,
      ''--ignore-errors'',
      ''--vtype-prefix'', ''pt_'',
      ''--verbose'']"

definition call_pt_lines_to_flows :: "env \<Rightarrow> state \<Rightarrow> state result" where
  "call_pt_lines_to_flows env s =
     call_module env Ptlines2flows pt_flows_options (log (Enter Call_pt_lines_to_flows) s)"

definition parking_options :: "string \<Rightarrow> string list" where
  "parking_options filename =
     [''--osm'', filename, ''--net'', DEFAULT_NET_XML, ''--out'', DEFAULT_PARKING_AREAS]"

definition call_generate_parking_areas_from_osm :: "env \<Rightarrow> string \<Rightarrow> state \<Rightarrow> state result" where
  "call_generate_parking_areas_from_osm env filename s =
     call_module env GenerateParkingAreasFromOSM (parking_options filename)
       (log (Enter Call_generate_parking_areas_from_osm) s)"

definition merge_parking_files :: "string \<Rightarrow> string \<Rightarrow> string \<Rightarrow> state \<Rightarrow> state result" where
  "merge_parking_files side_parking parking_areas complete_parking s =
     (case ElementTree_parse side_parking (log (Enter Merge_parking_files) s) of
        Inl x \<Rightarrow> Inl x
      | Inr (side_parking_struct, s1) \<Rightarrow>
          (case ElementTree_parse parking_areas s1 of
             Inl x \<Rightarrow> Inl x
           | Inr (parking_areas_struct, s2) \<Rightarrow>
               ElementTree_write complete_parking
                 (fold append_child (children parking_areas_struct) side_parking_struct) s2))"

definition rerouters_options :: "string list" where
  "rerouters_options =
     [''-a'', DEFAULT_COMPLETE_PARKING_XML,
      ''-n'', DEFAULT_NET_XML,
      ''--max-number-alternatives'', ''10'',
      ''--max-distance-alternatives'', ''1000.0'',
      ''--min-capacity-visibility-true'', ''50'',
      ''--max-distance-visibility-true'', ''1000.0'',
      ''-o'', DEFAULT_PARKING_REROUTERS_XML]"

definition call_generate_parking_area_rerouters :: "env \<Rightarrow> state \<Rightarrow> state result" where
  "call_generate_parking_area_rerouters env s =
     call_module env GenerateParkingAreaRerouters rerouters_options
       (log (Enter Call_generate_parking_area_rerouters) s)"

definition polyconvert_options :: "string \<Rightarrow> string list" where
  "polyconvert_options filename =
     [''polyconvert'',
      ''--osm'', filename,
      ''--net'', DEFAULT_NET_XML,
      ''-o'', DEFAULT_POLY_XML]"

definition call_polyconvert :: "env \<Rightarrow> string \<Rightarrow> state \<Rightarrow> state result" where
  "call_polyconvert env filename s =
     (case subprocess_call env (polyconvert_options filename) (log (Enter Call_polyconvert) s) of
        Inl x \<Rightarrow> Inl x
      | Inr (status, s') \<Rightarrow> Inr s')"

definition taz_buildings_options :: "string \<Rightarrow> string list" where
  "taz_buildings_options filename =
     [''--osm'', filename,
      ''--net'', DEFAULT_NET_XML,
      ''--taz-output'', DEFAULT_TAZ_OUTPUT_XML,
      ''--od-output'', DEFAULT_OD_OUTPUT_CSV,
      ''--poly-output'', DEFAULT_BUILDINGS_PREFIX]"

definition call_generate_taz_buildings_from_osm :: "env \<Rightarrow> string \<Rightarrow> state \<Rightarrow> state result" where
  "call_generate_taz_buildings_from_osm env filename s =
     call_module env GenerateTAZBuildingsFromOSM (taz_buildings_options filename)
       (log (Enter Call_generate_taz_buildings_from_osm) s)"

definition odmatrix_options :: "string list" where
  "odmatrix_options =
     [''--taz-weights'', DEFAULT_OD_OUTPUT_CSV,
      ''--out'', DEFAULT_ODMATRIX_AMITRAN_XML,
      ''--density'', ''3000.0'']"

definition call_generate_amitran_from_taz_weights :: "env \<Rightarrow> state \<Rightarrow> state result" where
  "call_generate_amitran_from_taz_weights env s =
     call_module env GenerateAmitranFromTAZWeights odmatrix_options
       (log (Enter Call_generate_amitran_from_taz_weights) s)"

definition default_options :: "string list" where
  "default_options =
     [''--conf'', DEAFULT_GENERIC_AG_CONG,
      ''--od-amitran'', DEFAULT_ODMATRIX_AMITRAN_XML,
      ''--out'', DEAFULT_SPECIFIC_AG_CONG]"

definition call_generate_defaults_activitygen :: "env \<Rightarrow> state \<Rightarrow> state result" where
  "call_generate_defaults_activitygen env s =
     call_module env GenerateDefaultsActivityGen default_options
       (log (Enter Call_generate_defaults_activitygen) s)"

definition activitygen_options :: "string list" where
  "activitygen_options = [''-c'', DEAFULT_SPECIFIC_AG_CONG]"

definition call_activitygen :: "env \<Rightarrow> state \<Rightarrow> state result" where
  "call_activitygen env s =
     call_module env Activitygen activitygen_options (log (Enter Call_activitygen) s)"

subsection \<open>The configuration rewriter\<close>

text \<open>The loop over the directory listing, with the string it accumulates.\<close>

fun collect_route_files :: "string list \<Rightarrow> string \<Rightarrow> string" where
  "collect_route_files [] route_files = route_files"
| "collect_route_files (item # items) route_files =
     collect_route_files items
       (if str_contains ''.rou.xml'' item then route_files @ item @ '','' else route_files)"

definition route_files_value :: "string list \<Rightarrow> string" where
  "route_files_value listing = str_strip '','' (collect_route_files listing [])"

text \<open>The loop over \<open>xml_tree.iter('route-files')\<close>, assigning the attribute of each field.\<close>

definition set_route_files :: "string \<Rightarrow> xml \<Rightarrow> xml" where
  "set_route_files route_files xml_tree =
     fold (\<lambda>field. set_attrib field ''value'' route_files) (iter ''route-files'' xml_tree) xml_tree"

definition add_rou_to_default_sumocfg :: "state \<Rightarrow> state result" where
  "add_rou_to_default_sumocfg s =
     (case os_listdir (log (Enter Add_rou_to_default_sumocfg) s) of
        (listing, s1) \<Rightarrow>
          (case ElementTree_parse DEFAULT_SUMOCFG s1 of
             Inl x \<Rightarrow> Inl x
           | Inr (xml_tree, s2) \<Rightarrow>
               ElementTree_write DEFAULT_SUMOCFG
                 (set_route_files (route_files_value listing) xml_tree) s2))"

definition call_sumo :: "env \<Rightarrow> state \<Rightarrow> state result" where
  "call_sumo env s =
     (case subprocess_call env [''sumo'', ''-c'', DEFAULT_SUMOCFG] (log (Enter Call_sumo) s) of
        Inl x \<Rightarrow> Inl x
      | Inr (status, s') \<Rightarrow> Inr s')"

subsection \<open>The pipeline\<close>

text \<open>Statements in sequence: the first one that raises ends the run.\<close>

fun run_steps :: "(state \<Rightarrow> state result) list \<Rightarrow> state \<Rightarrow> state result" where
  "run_steps [] s = Inr s"
| "run_steps (f # fs) s = (case f s of Inl x \<Rightarrow> Inl x | Inr s' \<Rightarrow> run_steps fs s')"

definition profiler_enable :: "state \<Rightarrow> state result" where
  "profiler_enable s = Inr (log ProfilerEnable s)"

definition profiler_report :: "state \<Rightarrow> state result" where
  "profiler_report s = Inr (log ProfilerReport s)"

definition main_steps :: "env \<Rightarrow> options \<Rightarrow> (state \<Rightarrow> state result) list" where
  "main_steps env args =
     (let osm = basename (osm_file args) in
      (if profiling args then [profiler_enable] else []) @
      [os_makedirs (out_dir args),
       shutil_copy (osm_file args) (out_dir args),
       shutil_copy ''defaults/activitygen.json'' (out_dir args),
       shutil_copy ''defaults/basic.vType.xml'' (out_dir args),
       shutil_copy ''defaults/duarouter.sumocfg'' (out_dir args),
       shutil_copy ''defaults/osm.netccfg'' (out_dir args),
       shutil_copy ''defaults/osm.sumocfg'' (out_dir args),
       os_chdir (out_dir args),
       call_netconvert env osm (left_hand_traffic args),
       call_pt_lines_to_flows env,
       call_generate_parking_areas_from_osm env osm,
       merge_parking_files DEFAULT_SIDE_PARKING_XML DEFAULT_PARKING_AREAS
         DEFAULT_COMPLETE_PARKING_XML,
       call_generate_parking_area_rerouters env,
       call_polyconvert env osm,
       os_makedirs_cwd ''buildings'',
       call_generate_taz_buildings_from_osm env osm,
       call_generate_amitran_from_taz_weights env,
       call_generate_defaults_activitygen env,
       call_activitygen env,
       add_rou_to_default_sumocfg,
       call_sumo env] @
      (if profiling args then [profiler_report] else []))"

definition main :: "env \<Rightarrow> string list \<Rightarrow> state \<Rightarrow> state result" where
  "main env cmd_args s =
     (case argparse env cmd_args of
        Inl status \<Rightarrow> Inl (SystemExit status, s)
      | Inr args \<Rightarrow> run_steps (main_steps env args) s)"

text \<open>
  The script as a process. Without \<open>SUMO_HOME\<close> the module body ends in
  \<open>sys.exit(message)\<close>, before \<open>main\<close> is reached. Otherwise \<open>main\<close> runs; the process
  ends with status 0 when it returns, with the status of a \<open>SystemExit\<close>, or with the
  traceback of any other exception.
\<close>

datatype exit = ExitStatus int | ExitMessage string | Traceback error

definition missing_sumo_home :: string where
  "missing_sumo_home =
     ''please declare environment variable '' @ [CHR 0x27] @ ''SUMO_HOME'' @ [CHR 0x27]"

definition script :: "env \<Rightarrow> bool \<Rightarrow> string list \<Rightarrow> state \<Rightarrow> exit \<times> state" where
  "script env sumo_home argv s =
     (if sumo_home then
        (case main env argv s of
           Inr s' \<Rightarrow> (ExitStatus 0, s')
         | Inl (SystemExit n, s') \<Rightarrow> (ExitStatus n, s')
         | Inl (e, s') \<Rightarrow> (Traceback e, s'))
      else (ExitMessage missing_sumo_home, s))"

text \<open>The functions of the script that a run has entered, in order.\<close>

fun entered :: "event list \<Rightarrow> func list" where
  "entered [] = []"
| "entered (Enter f # es) = f # entered es"
| "entered (e # es) = entered es"

subsection \<open>Closed forms and predicates of the statements\<close>

text \<open>
  What the loop over \<open>iter\<close> computes, as one recursion over the document: every element
  with the tag gets the attribute, nothing else changes. It is proved equal to the loop
  below (\<open>fold_iter_assign_all\<close>).
\<close>

fun assign_all :: "string \<Rightarrow> string \<Rightarrow> string \<Rightarrow> xml \<Rightarrow> xml" where
  "assign_all tg k v (Element t a tx ta cs) =
     Element t (if t = tg then AList.update k v a else a) tx ta (map (assign_all tg k v) cs)"

definition node :: "xml \<Rightarrow> string \<times> (string \<times> string) list \<times> string \<times> string" where
  "node e = (tag e, attrib e, elem_text e, elem_tail e)"

text \<open>
  \<open>rewritten v doc doc'\<close>: the document \<open>doc'\<close> has elements at the same positions as
  \<open>doc\<close>, each with the same tag, text, tail and number of children; an element with
  another tag than \<open>route-files\<close> has the same attributes; a \<open>route-files\<close> element
  has \<open>value\<close> assigned to \<open>v\<close> and its other attributes as before.
\<close>

definition rewritten :: "string \<Rightarrow> xml \<Rightarrow> xml \<Rightarrow> bool" where
  "rewritten v doc doc' \<longleftrightarrow>
     (\<forall>p. subtree doc p = None \<longrightarrow> subtree doc' p = None)
     \<and> (\<forall>p e. subtree doc p = Some e \<longrightarrow>
           (\<exists>e'. subtree doc' p = Some e'
              \<and> tag e' = tag e \<and> elem_text e' = elem_text e \<and> elem_tail e' = elem_tail e
              \<and> length (children e') = length (children e)
              \<and> (tag e \<noteq> ''route-files'' \<longrightarrow> attrib e' = attrib e)
              \<and> (tag e = ''route-files'' \<longrightarrow>
                    attrib e' = AList.update ''value'' v (attrib e)
                    \<and> map_of (attrib e') ''value'' = Some v
                    \<and> (\<forall>k. k \<noteq> ''value'' \<longrightarrow> map_of (attrib e') k = map_of (attrib e) k))))"

text \<open>
  \<open>assigned_at field v doc doc'\<close>: the element of \<open>doc\<close> at \<open>field\<close> is a
  \<open>route-files\<close> element, in \<open>doc'\<close> it has \<open>value\<close> assigned to \<open>v\<close> and is
  otherwise the same, and every other position holds an element with the same tag,
  attributes, text, tail and number of children as before.
\<close>

definition assigned_at :: "path \<Rightarrow> string \<Rightarrow> xml \<Rightarrow> xml \<Rightarrow> bool" where
  "assigned_at field v doc doc' \<longleftrightarrow>
     (\<exists>e. subtree doc field = Some e \<and> tag e = ''route-files''
        \<and> subtree doc' field =
              Some (Element (tag e) (AList.update ''value'' v (attrib e))
                (elem_text e) (elem_tail e) (children e)))
     \<and> (\<forall>q. q \<noteq> field \<longrightarrow>
            map_option node (subtree doc' q) = map_option node (subtree doc q))
     \<and> (\<forall>q. map_option (\<lambda>e. length (children e)) (subtree doc' q)
            = map_option (\<lambda>e. length (children e)) (subtree doc q))"

definition template_files :: "string list" where
  "template_files =
     [''defaults/activitygen.json'',
      ''defaults/basic.vType.xml'',
      ''defaults/duarouter.sumocfg'',
      ''defaults/osm.netccfg'',
      ''defaults/osm.sumocfg'']"

text \<open>
  \<open>step_events f evs\<close>: whatever the state, the step \<open>f\<close> adds to the trace an initial
  part of \<open>evs\<close>, and the whole of \<open>evs\<close> when it returns.
\<close>

definition step_events :: "(state \<Rightarrow> state result) \<Rightarrow> event list \<Rightarrow> bool" where
  "step_events f evs \<longleftrightarrow>
     (\<forall>s. \<exists>done. trace (final (f s)) = trace s @ done \<and> prefix done evs
        \<and> (\<forall>s'. f s = Inr s' \<longrightarrow> done = evs))"

text \<open>The events of the workspace set-up, up to but without the change of directory.\<close>

definition setup_events :: "options \<Rightarrow> event list" where
  "setup_events args =
     (if profiling args then [ProfilerEnable] else []) @
     MakeDirs (out_dir args) #
     map (\<lambda>src. Copy src (out_dir args)) (osm_file args # template_files)"

text \<open>The events of the stages, the rewriter and the simulator, after the change of directory.\<close>

definition stage_events :: "options \<Rightarrow> event list" where
  "stage_events args =
     (let osm = basename (osm_file args) in
      [Enter Call_netconvert, Subprocess (netconvert_options osm (left_hand_traffic args)),
       Enter Call_pt_lines_to_flows, ModuleMain Ptlines2flows pt_flows_options,
       Enter Call_generate_parking_areas_from_osm,
       ModuleMain GenerateParkingAreasFromOSM (parking_options osm),
       Enter Merge_parking_files, XmlParse DEFAULT_SIDE_PARKING_XML,
       XmlParse DEFAULT_PARKING_AREAS, XmlWrite DEFAULT_COMPLETE_PARKING_XML,
       Enter Call_generate_parking_area_rerouters,
       ModuleMain GenerateParkingAreaRerouters rerouters_options,
       Enter Call_polyconvert, Subprocess (polyconvert_options osm),
       MakeDirs ''buildings'',
       Enter Call_generate_taz_buildings_from_osm,
       ModuleMain GenerateTAZBuildingsFromOSM (taz_buildings_options osm),
       Enter Call_generate_amitran_from_taz_weights,
       ModuleMain GenerateAmitranFromTAZWeights odmatrix_options,
       Enter Call_generate_defaults_activitygen,
       ModuleMain GenerateDefaultsActivityGen default_options,
       Enter Call_activitygen, ModuleMain Activitygen activitygen_options,
       Enter Add_rou_to_default_sumocfg, ListDir, XmlParse DEFAULT_SUMOCFG,
       XmlWrite DEFAULT_SUMOCFG,
       Enter Call_sumo, Subprocess [''sumo'', ''-c'', DEFAULT_SUMOCFG]] @
      (if profiling args then [ProfilerReport] else []))"

definition main_events :: "options \<Rightarrow> event list" where
  "main_events args = setup_events args @ ChDir (out_dir args) # stage_events args"

text \<open>The events of a complete run, one group for each statement of \<open>main\<close>.\<close>

definition main_step_events :: "options \<Rightarrow> event list list" where
  "main_step_events args =
     (if profiling args then [[ProfilerEnable]] else []) @
      [MakeDirs (out_dir args)] #
      map (\<lambda>src. [Copy src (out_dir args)]) (osm_file args # template_files) @
      [ChDir (out_dir args)] #
      [[Enter Call_netconvert,
        Subprocess (netconvert_options (basename (osm_file args)) (left_hand_traffic args))],
       [Enter Call_pt_lines_to_flows, ModuleMain Ptlines2flows pt_flows_options],
       [Enter Call_generate_parking_areas_from_osm,
        ModuleMain GenerateParkingAreasFromOSM (parking_options (basename (osm_file args)))],
       [Enter Merge_parking_files, XmlParse DEFAULT_SIDE_PARKING_XML,
        XmlParse DEFAULT_PARKING_AREAS, XmlWrite DEFAULT_COMPLETE_PARKING_XML],
       [Enter Call_generate_parking_area_rerouters,
        ModuleMain GenerateParkingAreaRerouters rerouters_options],
       [Enter Call_polyconvert, Subprocess (polyconvert_options (basename (osm_file args)))],
       [MakeDirs ''buildings''],
       [Enter Call_generate_taz_buildings_from_osm,
        ModuleMain GenerateTAZBuildingsFromOSM (taz_buildings_options (basename (osm_file args)))],
       [Enter Call_generate_amitran_from_taz_weights,
        ModuleMain GenerateAmitranFromTAZWeights odmatrix_options],
       [Enter Call_generate_defaults_activitygen,
        ModuleMain GenerateDefaultsActivityGen default_options],
       [Enter Call_activitygen, ModuleMain Activitygen activitygen_options],
       [Enter Add_rou_to_default_sumocfg, ListDir, XmlParse DEFAULT_SUMOCFG,
        XmlWrite DEFAULT_SUMOCFG],
       [Enter Call_sumo, Subprocess [''sumo'', ''-c'', DEFAULT_SUMOCFG]]] @
      (if profiling args then [[ProfilerReport]] else [])"

text \<open>The ten stages of the table, then the rewriter and the simulator.\<close>

definition pipeline_order :: "func list" where
  "pipeline_order =
     [Call_netconvert,
      Call_pt_lines_to_flows,
      Call_generate_parking_areas_from_osm,
      Merge_parking_files,
      Call_generate_parking_area_rerouters,
      Call_polyconvert,
      Call_generate_taz_buildings_from_osm,
      Call_generate_amitran_from_taz_weights,
      Call_generate_defaults_activitygen,
      Call_activitygen,
      Add_rou_to_default_sumocfg,
      Call_sumo]"

text \<open>The same collaborators, with the exit status of every process replaced.\<close>

definition with_status :: "(string list \<Rightarrow> directory \<Rightarrow> int \<Rightarrow> int) \<Rightarrow> env \<Rightarrow> env" where
  "with_status f env =
     env\<lparr>spawn := (\<lambda>argv d.
       case spawn env argv d of
         Inl e \<Rightarrow> Inl e
       | Inr (d', status) \<Rightarrow> Inr (d', f argv d status))\<rparr>"

text \<open>The statements of \<open>main\<close> before \<open>os.chdir\<close>, and the ones after it.\<close>

definition setup_steps :: "options \<Rightarrow> (state \<Rightarrow> state result) list" where
  "setup_steps args =
     (if profiling args then [profiler_enable] else []) @
     os_makedirs (out_dir args) #
     map (\<lambda>src. shutil_copy src (out_dir args)) (osm_file args # template_files)"

definition stage_steps :: "env \<Rightarrow> options \<Rightarrow> (state \<Rightarrow> state result) list" where
  "stage_steps env args = drop (Suc (length (setup_steps args))) (main_steps env args)"

text \<open>
  \<open>copy_ok src dst s\<close>: the path \<open>src\<close> names a regular file that is not an entry of
  the directory \<open>dst\<close>, and no directory of \<open>dst\<close> carries its base name.
\<close>

definition copy_ok :: "string \<Rightarrow> string \<Rightarrow> state \<Rightarrow> bool" where
  "copy_ok src dst s \<longleftrightarrow>
     dirname src \<noteq> dst \<and> \<not> same_file s src dst
     \<and> (\<exists>c. launch_files s src = Some c \<and> c \<noteq> Dir)
     \<and> basename src \<noteq> []
     \<and> map_of (workdir s) (basename src) \<noteq> Some Dir"

text \<open>
  \<open>setup_ok args s\<close>: what the set-up needs of the place the script is started in: an
  output path that is not empty and does not name a file, and the map file and the five
  templates of the \<open>defaults\<close> folder, each of which can be copied.
\<close>

definition setup_ok :: "options \<Rightarrow> state \<Rightarrow> bool" where
  "setup_ok args s \<longleftrightarrow>
     out_dir args \<noteq> []
     \<and> (\<forall>c. launch_files s (out_dir args) = Some c \<longrightarrow> c = Dir)
     \<and> (\<forall>src \<in> set (osm_file args # template_files). copy_ok src (out_dir args) s)"

text \<open>
  \<open>copied args s s1\<close>: in \<open>s1\<close> the output directory holds each template under its
  base name, with the content it has in \<open>s\<close>; it holds the map file under its base
  name, unless a template has the same base name and has replaced it; its other
  entries are those of \<open>s\<close>.
\<close>

definition copied :: "options \<Rightarrow> state \<Rightarrow> state \<Rightarrow> bool" where
  "copied args s s1 \<longleftrightarrow>
     (\<forall>t \<in> set template_files. map_of (workdir s1) (basename t) = launch_files s t)
     \<and> (basename (osm_file args) \<notin> basename ` set template_files \<longrightarrow>
           map_of (workdir s1) (basename (osm_file args)) = launch_files s (osm_file args))
     \<and> (\<forall>name. name \<notin> basename ` set (osm_file args # template_files) \<longrightarrow>
           map_of (workdir s1) name = map_of (workdir s) name)
     \<and> launch_files s1 = launch_files s \<and> same_file s1 = same_file s"

subsection \<open>Sample inputs\<close>

definition sample_config :: xml where
  "sample_config =
     Element ''configuration'' [] [] []
       [Element ''input'' [] [] []
          [Element ''net-file'' [(''value'', ''osm.net.xml'')] [] [] [],
           Element ''route-files'' [(''value'', ''old.rou.xml'')] [] [] []],
        Element ''time'' [(''begin'', ''0'')] [] [] []]"

definition sample_config_no_routes :: xml where
  "sample_config_no_routes =
     Element ''configuration'' [] [] []
       [Element ''input'' [] [] []
          [Element ''net-file'' [(''value'', ''osm.net.xml'')] [] [] []]]"

definition sample_side_parking :: xml where
  "sample_side_parking =
     Element ''additional'' [(''version'', ''1.0'')] [] []
       [Element ''parkingArea'' [(''id'', ''side_1'')] [] [] [],
        Element ''parkingArea'' [(''id'', ''side_2'')] [] [] []]"

definition sample_parking_areas :: xml where
  "sample_parking_areas =
     Element ''additional'' [] [] []
       [Element ''parkingArea'' [(''id'', ''area_1'')] [] [] []]"

definition sample_state :: "directory \<Rightarrow> state" where
  "sample_state d =
     \<lparr>launch_files = Map.empty, same_file = (\<lambda>src dst. False), workdir = d, trace = []\<rparr>"

definition sample_directory :: directory where
  "sample_directory =
     [(''b.rou.xml'', Blob), (DEFAULT_SUMOCFG, XmlDoc sample_config), (''osm.net.xml'', Blob),
      (''a.rou.xml'', Blob)]"

definition sample_options :: options where
  "sample_options =
     \<lparr>osm_file = ''maps/town.osm'', out_dir = ''out'', profiling = False,
      left_hand_traffic = True\<rparr>"

definition sample_launch :: state where
  "sample_launch =
     \<lparr>launch_files = map_of
        [(''maps/town.osm'', Blob),
         (''defaults/activitygen.json'', Blob),
         (''defaults/basic.vType.xml'', Blob),
         (''defaults/duarouter.sumocfg'', Blob),
         (''defaults/osm.netccfg'', Blob),
         (''defaults/osm.sumocfg'', XmlDoc sample_config)],
      same_file = (\<lambda>src dst. False),
      workdir = [],
      trace = []\<rparr>"

definition bare_launch :: state where
  "bare_launch =
     \<lparr>launch_files = map_of [(''maps/town.osm'', Blob)], same_file = (\<lambda>src dst. False),
      workdir = [], trace = []\<rparr>"

text \<open>
  Collaborators that write nothing, and collaborators that write the parking files and
  two route files. In both, every process ends with status 1.
\<close>

definition idle_env :: env where
  "idle_env =
     \<lparr>argparse = (\<lambda>argv. Inr sample_options),
      spawn = (\<lambda>argv d. Inr (d, 1)),
      module_main = (\<lambda>m argv d. Inr d)\<rparr>"

definition sample_env :: env where
  "sample_env =
     \<lparr>argparse = (\<lambda>argv. Inr sample_options),
      spawn = (\<lambda>argv d.
        Inr (if take 1 argv = [''netconvert'']
             then AList.update DEFAULT_SIDE_PARKING_XML (XmlDoc sample_side_parking) d
             else d, 1)),
      module_main = (\<lambda>m argv d.
        Inr (case m of
               Ptlines2flows \<Rightarrow> AList.update DEFAULT_PT_FLOWS Blob d
             | GenerateParkingAreasFromOSM \<Rightarrow>
                 AList.update DEFAULT_PARKING_AREAS (XmlDoc sample_parking_areas) d
             | Activitygen \<Rightarrow> AList.update ''osm_activitygen.rou.xml'' Blob d
             | _ \<Rightarrow> d))\<rparr>"

definition sample_workspace :: directory where
  "sample_workspace =
     [(DEFAULT_SUMOCFG, XmlDoc sample_config), (''x.rou.xml.bak'', Blob), (''osm.net.xml'', Blob),
      (DEFAULT_PT_FLOWS, Blob)]"

text \<open>The collaborators of \<open>sample_env\<close>, except that the second stage writes no file.\<close>

definition no_pt_env :: env where
  "no_pt_env =
     sample_env\<lparr>module_main := (\<lambda>m argv d.
       case m of Ptlines2flows \<Rightarrow> Inr d | _ \<Rightarrow> module_main sample_env m argv d)\<rparr>"

section \<open>Properties\<close>

lemmas names_defs =
  DEFAULT_NETCONVERT_def DEFAULT_NET_XML_def DEFAULT_PT_STOPS_XML_def DEFAULT_PT_LINES_def
  DEFAULT_SIDE_PARKING_XML_def DEFAULT_PT_FLOWS_def DEFAULT_PARKING_AREAS_def
  DEFAULT_COMPLETE_PARKING_XML_def DEFAULT_PARKING_REROUTERS_XML_def DEFAULT_POLY_XML_def
  DEFAULT_TAZ_OUTPUT_XML_def DEFAULT_OD_OUTPUT_CSV_def DEFAULT_BUILDINGS_PREFIX_def
  DEFAULT_ODMATRIX_AMITRAN_XML_def DEAFULT_GENERIC_AG_CONG_def DEAFULT_SPECIFIC_AG_CONG_def
  DEFAULT_SUMOCFG_def

subsection \<open>The loop over the matching elements\<close>

lemma fold_set_attrib_child:
  "i < length cs \<Longrightarrow>
   fold (\<lambda>p. set_attrib p k v) (map ((#) i) ps) (Element t a tx ta cs)
   = Element t a tx ta (cs[i := fold (\<lambda>p. set_attrib p k v) ps (cs ! i)])"
  by (induction ps arbitrary: cs) (simp_all add: list_update_same_conv)

lemma fold_iter_children:
  "(\<And>c. c \<in> set cs \<Longrightarrow> fold (\<lambda>p. set_attrib p k v) (iter tg c) c = assign_all tg k v c) \<Longrightarrow>
   fold (\<lambda>p. set_attrib p k v) (iter_children tg (length pre) cs) (Element t a tx ta (pre @ cs))
   = Element t a tx ta (pre @ map (assign_all tg k v) cs)"
proof (induction cs arbitrary: pre)
  case Nil
  then show ?case by simp
next
  case (Cons c cs)
  have "fold (\<lambda>p. set_attrib p k v) (iter_children tg (length pre) (c # cs)) (Element t a tx ta (pre @ c # cs))
    = fold (\<lambda>p. set_attrib p k v) (iter_children tg (Suc (length pre)) cs)
        (Element t a tx ta (pre @ assign_all tg k v c # cs))"
    using Cons.prems by (simp add: fold_set_attrib_child nth_append)
  also have "\<dots> = Element t a tx ta ((pre @ [assign_all tg k v c]) @ map (assign_all tg k v) cs)"
    using Cons.IH [of "pre @ [assign_all tg k v c]"] Cons.prems by simp
  finally show ?case by simp
qed

lemma fold_iter_assign_all:
  "fold (\<lambda>p. set_attrib p k v) (iter tg e) e = assign_all tg k v e"
proof (induction e)
  case (Element t a tx ta cs)
  have ch: "\<And>t' a'. fold (\<lambda>p. set_attrib p k v) (iter_children tg 0 cs) (Element t' a' tx ta cs)
      = Element t' a' tx ta (map (assign_all tg k v) cs)"
    using fold_iter_children [of cs k v tg "[]"] Element.IH by simp
  show ?case by (simp add: ch)
qed

lemma set_route_files_assign_all:
  "set_route_files v doc = assign_all ''route-files'' ''value'' v doc"
  by (simp add: set_route_files_def fold_iter_assign_all)

lemma subtree_assign_all:
  "subtree (assign_all tg k v e) p = map_option (assign_all tg k v) (subtree e p)"
proof (induction p arbitrary: e)
  case Nil
  show ?case by simp
next
  case (Cons i p)
  show ?case by (cases e) (simp add: Cons.IH)
qed

lemma tag_assign_all [simp]: "tag (assign_all tg k v e) = tag e"
  by (cases e) simp

lemma elem_text_assign_all [simp]: "elem_text (assign_all tg k v e) = elem_text e"
  by (cases e) simp

lemma elem_tail_assign_all [simp]: "elem_tail (assign_all tg k v e) = elem_tail e"
  by (cases e) simp

lemma length_children_assign_all [simp]:
  "length (children (assign_all tg k v e)) = length (children e)"
  by (cases e) simp

lemma attrib_assign_all:
  "attrib (assign_all tg k v e) = (if tag e = tg then AList.update k v (attrib e) else attrib e)"
  by (cases e) simp

lemma in_iter_iff:
  "p \<in> set (iter tg e) \<longleftrightarrow> (\<exists>e1. subtree e p = Some e1 \<and> tag e1 = tg)"
  "p \<in> set (iter_children tg i cs) \<longleftrightarrow>
     (\<exists>j q e1. p = (i + j) # q \<and> j < length cs \<and> subtree (cs ! j) q = Some e1 \<and> tag e1 = tg)"
proof (induction tg e and tg i cs arbitrary: p and p rule: iter_iter_children.induct)
  case (1 tg t a tx ta cs)
  show ?case
  proof (cases p)
    case Nil
    then show ?thesis using 1 [of p] by auto
  next
    case (Cons j q)
    then show ?thesis using 1 [of p] by auto
  qed
next
  case (2 tg i)
  show ?case by simp
next
  case (3 tg i c cs)
  have a: "p \<in> set (map ((#) i) (iter tg c)) \<longleftrightarrow>
        (\<exists>q e1. p = i # q \<and> subtree c q = Some e1 \<and> tag e1 = tg)"
    using 3(1) by auto
  have b: "p \<in> set (iter_children tg (Suc i) cs) \<longleftrightarrow>
     (\<exists>j q e1. p = (Suc i + j) # q \<and> j < length cs \<and> subtree (cs ! j) q = Some e1 \<and> tag e1 = tg)"
    using 3(2) by blast
  show ?case
  proof
    assume "p \<in> set (iter_children tg i (c # cs))"
    then consider "p \<in> set (map ((#) i) (iter tg c))" | "p \<in> set (iter_children tg (Suc i) cs)"
      by auto
    then show "\<exists>j q e1. p = (i + j) # q \<and> j < length (c # cs) \<and> subtree ((c # cs) ! j) q = Some e1 \<and> tag e1 = tg"
    proof cases
      case 1
      then obtain q e1 where "p = i # q" "subtree c q = Some e1" "tag e1 = tg" using a by blast
      then show ?thesis by (intro exI [of _ 0] exI [of _ q] exI [of _ e1]) simp
    next
      case 2
      then obtain j q e1 where "p = (Suc i + j) # q" "j < length cs" "subtree (cs ! j) q = Some e1" "tag e1 = tg"
        using b by blast
      then show ?thesis by (intro exI [of _ "Suc j"] exI [of _ q] exI [of _ e1]) simp
    qed
  next
    assume "\<exists>j q e1. p = (i + j) # q \<and> j < length (c # cs) \<and> subtree ((c # cs) ! j) q = Some e1 \<and> tag e1 = tg"
    then obtain j q e1 where h: "p = (i + j) # q" "j < length (c # cs)" "subtree ((c # cs) ! j) q = Some e1" "tag e1 = tg"
      by blast
    show "p \<in> set (iter_children tg i (c # cs))"
    proof (cases j)
      case 0
      then have "p \<in> set (map ((#) i) (iter tg c))" using a h by simp
      then show ?thesis by simp
    next
      case (Suc j')
      then have "p \<in> set (iter_children tg (Suc i) cs)" using b h by auto
      then show ?thesis by simp
    qed
  qed
qed

lemma iter_assign_all:
  "iter tg (assign_all tg' k v e) = iter tg e"
  "iter_children tg i (map (assign_all tg' k v) cs) = iter_children tg i cs"
  by (induction tg e and tg i cs rule: iter_iter_children.induct) simp_all

lemma subtree_set_attrib_same:
  "subtree (set_attrib p k v e) p =
     map_option (\<lambda>e1. Element (tag e1) (AList.update k v (attrib e1)) (elem_text e1) (elem_tail e1) (children e1))
       (subtree e p)"
proof (induction p arbitrary: e)
  case Nil
  show ?case by (cases e) simp
next
  case (Cons i p)
  show ?case by (cases e) (simp add: Cons.IH)
qed

lemma node_set_attrib_other:
  "q \<noteq> p \<Longrightarrow> map_option node (subtree (set_attrib p k v e) q) = map_option node (subtree e q)"
proof (induction p arbitrary: q e)
  case Nil
  then obtain j q' where "q = j # q'" by (cases q) auto
  then show ?case by (cases e) simp
next
  case (Cons i p)
  show ?case
  proof (cases q)
    case Nil
    then show ?thesis by (cases e) (simp add: node_def)
  next
    case q: (Cons j q')
    obtain t a tx ta cs where e: "e = Element t a tx ta cs" by (cases e)
    show ?thesis
    proof (cases "j = i")
      case True
      then have "q' \<noteq> p" using Cons.prems q by simp
      then show ?thesis using Cons.IH [of q' "cs ! i"] q e True by simp
    next
      case False
      then show ?thesis using q e by simp
    qed
  qed
qed

lemma shape_set_attrib:
  "map_option (\<lambda>e1. length (children e1)) (subtree (set_attrib p k v e) q)
   = map_option (\<lambda>e1. length (children e1)) (subtree e q)"
proof (induction p arbitrary: q e)
  case Nil
  show ?case by (cases e; cases q) simp_all
next
  case (Cons i p)
  obtain t a tx ta cs where e: "e = Element t a tx ta cs" by (cases e)
  show ?case
  proof (cases q)
    case Nil
    then show ?thesis using e by simp
  next
    case q: (Cons j q')
    show ?thesis
    proof (cases "j = i")
      case True
      then show ?thesis using Cons.IH [of "cs ! i" q'] q e by simp
    next
      case False
      then show ?thesis using q e by simp
    qed
  qed
qed

subsection \<open>Substrings, joining and stripping\<close>

lemma str_contains_sublist: "str_contains needle s \<longleftrightarrow> sublist needle s"
  by (induction s) (auto simp: sublist_Cons_right)

lemma collect_route_files_eq:
  "collect_route_files listing acc =
     acc @ concat (map (\<lambda>item. item @ '','') (filter (str_contains ''.rou.xml'') listing))"
  by (induction listing arbitrary: acc) simp_all

lemma route_files_value_none:
  "\<forall>name \<in> set listing. \<not> str_contains ''.rou.xml'' name \<Longrightarrow> route_files_value listing = []"
  by (simp add: route_files_value_def collect_route_files_eq str_strip_def filter_False)

lemma str_split_not_Nil [simp]: "str_split sep s \<noteq> []"
  by (induction s) (auto split: list.splits)

lemma str_split_append_sep:
  "str_split sep (xs @ sep # ys) = str_split sep xs @ str_split sep ys"
  by (induction xs) (auto split: list.splits)

lemma str_split_no_sep: "sep \<notin> set x \<Longrightarrow> str_split sep x = [x]"
  by (induction x) auto

lemma str_split_entry:
  assumes "sep \<notin> set x" and "A = [] \<or> last A = sep" and "C = [] \<or> hd C = sep"
  shows "x \<in> set (str_split sep (A @ x @ C))"
proof -
  have right: "x \<in> set (str_split sep (x @ C))"
  proof (cases C)
    case Nil
    then show ?thesis using assms(1) by (simp add: str_split_no_sep)
  next
    case (Cons c C0)
    then have "c = sep" using assms(3) by simp
    then show ?thesis using Cons assms(1) by (simp add: str_split_append_sep str_split_no_sep)
  qed
  show ?thesis
  proof (cases "A = []")
    case True
    then show ?thesis using right by simp
  next
    case False
    then obtain A0 where A0: "A = A0 @ [sep]"
      using assms(2) by (metis append_butlast_last_id)
    have "str_split sep (A @ x @ C) = str_split sep A0 @ str_split sep (x @ C)"
      unfolding A0 by (simp add: str_split_append_sep)
    then show ?thesis using right by simp
  qed
qed

lemma dropWhile_keeps_middle:
  "x \<noteq> [] \<Longrightarrow> \<not> P (hd x) \<Longrightarrow> dropWhile P (A @ x @ C) = dropWhile P A @ x @ C"
  by (induction A) (auto simp: neq_Nil_conv)

lemma str_strip_middle:
  assumes "x \<noteq> []" and "hd x \<notin> set chars" and "last x \<notin> set chars"
  shows "str_strip chars (A @ x @ C) =
     dropWhile (\<lambda>c. c \<in> set chars) A @ x @ rev (dropWhile (\<lambda>c. c \<in> set chars) (rev C))"
proof -
  let ?P = "\<lambda>c. c \<in> set chars"
  have "dropWhile ?P (A @ x @ C) = dropWhile ?P A @ x @ C"
    using assms(1,2) by (rule dropWhile_keeps_middle)
  moreover have "dropWhile ?P (rev C @ rev x @ rev (dropWhile ?P A))
      = dropWhile ?P (rev C) @ rev x @ rev (dropWhile ?P A)"
    using assms(1,3) by (intro dropWhile_keeps_middle) (simp_all add: hd_rev)
  ultimately show ?thesis by (simp add: str_strip_def)
qed

lemma last_dropWhile: "dropWhile P xs \<noteq> [] \<Longrightarrow> last (dropWhile P xs) = last xs"
  by (induction xs) (auto split: if_splits)

lemma joined_ends_with_comma:
  "concat (map (\<lambda>item. item @ '','') items) = [] \<or>
   last (concat (map (\<lambda>item. item @ '','') items)) = CHR '',''"
  by (cases items rule: rev_cases) simp_all

lemma route_files_value_entry:
  assumes "name \<in> set listing" and "str_contains ''.rou.xml'' name" and "CHR '','' \<notin> set name"
  shows "name \<in> set (str_split (CHR '','') (route_files_value listing))"
proof -
  let ?P = "\<lambda>c. c \<in> set '',''"
  let ?join = "\<lambda>items. concat (map (\<lambda>item. item @ '','') items)"
  have "name \<in> set (filter (str_contains ''.rou.xml'') listing)"
    using assms(1,2) by simp
  then obtain R1 R2 where R: "filter (str_contains ''.rou.xml'') listing = R1 @ name # R2"
    by (meson split_list)
  have ne: "name \<noteq> []" using assms(2) by (cases name) auto
  have ends: "hd name \<notin> set '',''" "last name \<notin> set '',''"
    using assms(3) hd_in_set [OF ne] last_in_set [OF ne] by auto
  define A where "A = dropWhile ?P (?join R1)"
  define C where "C = rev (dropWhile ?P (rev (CHR '','' # ?join R2)))"
  have "route_files_value listing = str_strip '','' (?join R1 @ name @ (CHR '','' # ?join R2))"
    by (simp add: route_files_value_def collect_route_files_eq R)
  also have "\<dots> = A @ name @ C"
    unfolding A_def C_def using ne ends by (rule str_strip_middle)
  finally have v: "route_files_value listing = A @ name @ C" .
  have a: "A = [] \<or> last A = CHR '',''"
  proof (cases "A = []")
    case False
    then have n: "dropWhile ?P (?join R1) \<noteq> []" by (simp add: A_def)
    then have "last A = last (?join R1)"
      unfolding A_def by (rule last_dropWhile)
    moreover have "?join R1 \<noteq> []" using n by fastforce
    ultimately show ?thesis using joined_ends_with_comma [of R1] by simp
  qed simp
  have c: "C = [] \<or> hd C = CHR '',''"
  proof (cases "C = []")
    case False
    then have "dropWhile ?P (rev (CHR '','' # ?join R2)) \<noteq> []" by (simp add: C_def)
    then have "last (dropWhile ?P (rev (CHR '','' # ?join R2))) = last (rev (CHR '','' # ?join R2))"
      by (rule last_dropWhile)
    then have "hd C = last (rev (CHR '','' # ?join R2))"
      unfolding C_def by (simp only: hd_rev rev_rev_ident)
    also have "\<dots> = CHR '',''" by simp
    finally show ?thesis by (rule disjI2)
  qed simp
  show ?thesis
    unfolding v using assms(3) a c by (rule str_split_entry)
qed

lemma distinct_pair:
  assumes "distinct xs" and "set xs = {a, b}" and "a \<noteq> b"
  shows "xs = [a, b] \<or> xs = [b, a]"
proof -
  have "length xs = 2"
    using distinct_card [OF assms(1)] assms(2,3) by simp
  then obtain x y where xs: "xs = [x, y]"
    by (auto simp: length_Suc_conv numeral_2_eq_2)
  then show ?thesis
    using assms(2) by (auto simp: doubleton_eq_iff)
qed

lemma route_files_value_two:
  assumes "distinct listing"
    and "{name \<in> set listing. sublist ''.rou.xml'' name} = {''a.rou.xml'', ''b.rou.xml''}"
  shows "route_files_value listing = ''a.rou.xml,b.rou.xml''
       \<or> route_files_value listing = ''b.rou.xml,a.rou.xml''"
proof -
  let ?R = "filter (str_contains ''.rou.xml'') listing"
  have "distinct ?R" using assms(1) by simp
  moreover have "set ?R = {''a.rou.xml'', ''b.rou.xml''}"
    using assms(2) by (simp add: str_contains_sublist)
  ultimately have "?R = [''a.rou.xml'', ''b.rou.xml''] \<or> ?R = [''b.rou.xml'', ''a.rou.xml'']"
    by (rule distinct_pair) simp
  then show ?thesis
    by (auto simp: route_files_value_def collect_route_files_eq str_strip_def)
qed

subsection \<open>The artifact merger\<close>

lemma fold_append_child:
  "fold append_child cs root =
     Element (tag root) (attrib root) (elem_text root) (elem_tail root) (children root @ cs)"
  by (induction cs arbitrary: root) (simp_all add: append_child_def)

text \<open>
  C2: when the two parking files hold documents whose roots have \<open>m\<close> and \<open>n\<close> children,
  the merger returns, and the document it writes has the \<open>m + n\<close> children of the first
  root followed by those of the second, each in their order, under the tag and the
  attributes of the first root.
\<close>

theorem merge_parking_files_children:
  assumes "map_of (workdir s) side_parking = Some (XmlDoc first)"
    and "map_of (workdir s) parking_areas = Some (XmlDoc second)"
    and "map_of (workdir s) complete_parking \<noteq> Some Dir"
  shows "\<exists>s' merged.
     merge_parking_files side_parking parking_areas complete_parking s = Inr s'
     \<and> map_of (workdir s') complete_parking = Some (XmlDoc merged)
     \<and> length (children merged) = length (children first) + length (children second)
     \<and> children merged = children first @ children second
     \<and> tag merged = tag first
     \<and> attrib merged = attrib first"
proof -
  define merged where "merged = fold append_child (children second) first"
  define s2 where "s2 =
    log (XmlParse parking_areas) (log (XmlParse side_parking) (log (Enter Merge_parking_files) s))"
  define s3 where "s3 =
    (log (XmlWrite complete_parking) s2)
      \<lparr>workdir := AList.update complete_parking (XmlDoc merged) (workdir s2)\<rparr>"
  have wd: "workdir s2 = workdir s"
    by (simp add: s2_def log_def)
  have w: "ElementTree_write complete_parking merged s2 = Inr s3"
    using assms(3) wd
    by (cases "map_of (workdir s) complete_parking")
       (auto simp: ElementTree_write_def s3_def log_def Let_def split: content.splits)
  have "merge_parking_files side_parking parking_areas complete_parking s =
      ElementTree_write complete_parking merged s2"
    using assms(1,2)
    by (simp add: merge_parking_files_def ElementTree_parse_def log_def Let_def merged_def s2_def)
  then have r: "merge_parking_files side_parking parking_areas complete_parking s = Inr s3"
    using w by simp
  have m: "map_of (workdir s3) complete_parking = Some (XmlDoc merged)"
    by (simp add: s3_def log_def update_conv')
  have c: "children merged = children first @ children second"
    "tag merged = tag first" "attrib merged = attrib first"
    by (simp_all add: merged_def fold_append_child)
  show ?thesis
    using r m c by auto
qed

theorem merge_parking_files_children_witness:
  "\<exists>s' merged.
     merge_parking_files DEFAULT_SIDE_PARKING_XML DEFAULT_PARKING_AREAS DEFAULT_COMPLETE_PARKING_XML
       (sample_state [(DEFAULT_SIDE_PARKING_XML, XmlDoc sample_side_parking),
                      (DEFAULT_PARKING_AREAS, XmlDoc sample_parking_areas)]) = Inr s'
     \<and> map_of (workdir s') DEFAULT_COMPLETE_PARKING_XML = Some (XmlDoc merged)
     \<and> length (children merged) = 3
     \<and> children merged =
         [Element ''parkingArea'' [(''id'', ''side_1'')] [] [] [],
          Element ''parkingArea'' [(''id'', ''side_2'')] [] [] [],
          Element ''parkingArea'' [(''id'', ''area_1'')] [] [] []]
     \<and> tag merged = ''additional''
     \<and> attrib merged = [(''version'', ''1.0'')]"
  using merge_parking_files_children
    [of "sample_state [(DEFAULT_SIDE_PARKING_XML, XmlDoc sample_side_parking),
                       (DEFAULT_PARKING_AREAS, XmlDoc sample_parking_areas)]"
        DEFAULT_SIDE_PARKING_XML sample_side_parking DEFAULT_PARKING_AREAS sample_parking_areas
        DEFAULT_COMPLETE_PARKING_XML]
  by (simp add: sample_state_def sample_side_parking_def sample_parking_areas_def names_defs
      numeral_3_eq_3)

subsection \<open>The configuration rewriter\<close>

lemma add_rou_to_default_sumocfg_result:
  assumes "map_of (workdir s) DEFAULT_SUMOCFG = Some (XmlDoc doc)"
  shows "add_rou_to_default_sumocfg s =
    Inr (s\<lparr>workdir := AList.update DEFAULT_SUMOCFG
             (XmlDoc (set_route_files (route_files_value (map fst (workdir s))) doc)) (workdir s),
           trace := trace s @ [Enter Add_rou_to_default_sumocfg, ListDir,
             XmlParse DEFAULT_SUMOCFG, XmlWrite DEFAULT_SUMOCFG]\<rparr>)"
  using assms
  by (simp add: add_rou_to_default_sumocfg_def os_listdir_def ElementTree_parse_def
      ElementTree_write_def log_def Let_def)

lemma update_other_file:
  "name \<noteq> k \<Longrightarrow> map_of (AList.update k v d) name = map_of d name"
  by (simp add: update_conv')

text \<open>
  C1: in a working directory whose listing holds the route files \<open>a.rou.xml\<close> and
  \<open>b.rou.xml\<close> and no other name containing \<open>.rou.xml\<close>, the rewriter returns and
  writes back a document in which every \<open>route-files\<close> element has its attribute
  \<open>value\<close> set to \<open>a.rou.xml,b.rou.xml\<close> or to \<open>b.rou.xml,a.rou.xml\<close>. The
  document has the same elements at the same positions, each with its tag, text, tail
  and number of children; the attributes of an element with another tag are as before,
  and on a \<open>route-files\<close> element the attributes other than \<open>value\<close> are as before.
  No other file of the directory changes.
\<close>

theorem add_rou_two_route_files:
  assumes "map_of (workdir s) DEFAULT_SUMOCFG = Some (XmlDoc doc)"
    and "distinct (map fst (workdir s))"
    and "{name \<in> set (map fst (workdir s)). sublist ''.rou.xml'' name}
           = {''a.rou.xml'', ''b.rou.xml''}"
  shows "\<exists>s' doc' v.
     add_rou_to_default_sumocfg s = Inr s'
     \<and> map_of (workdir s') DEFAULT_SUMOCFG = Some (XmlDoc doc')
     \<and> (v = ''a.rou.xml,b.rou.xml'' \<or> v = ''b.rou.xml,a.rou.xml'')
     \<and> rewritten v doc doc'
     \<and> (\<forall>name. name \<noteq> DEFAULT_SUMOCFG \<longrightarrow> map_of (workdir s') name = map_of (workdir s) name)"
proof -
  define v where "v = route_files_value (map fst (workdir s))"
  define doc' where "doc' = assign_all ''route-files'' ''value'' v doc"
  define s' where "s' = s\<lparr>workdir := AList.update DEFAULT_SUMOCFG (XmlDoc doc') (workdir s),
      trace := trace s @ [Enter Add_rou_to_default_sumocfg, ListDir,
        XmlParse DEFAULT_SUMOCFG, XmlWrite DEFAULT_SUMOCFG]\<rparr>"
  have r: "add_rou_to_default_sumocfg s = Inr s'"
    using add_rou_to_default_sumocfg_result [OF assms(1)]
    by (simp add: s'_def doc'_def v_def set_route_files_assign_all)
  have f: "map_of (workdir s') DEFAULT_SUMOCFG = Some (XmlDoc doc')"
    by (simp add: s'_def update_conv')
  have val: "v = ''a.rou.xml,b.rou.xml'' \<or> v = ''b.rou.xml,a.rou.xml''"
    unfolding v_def using assms(2,3) by (rule route_files_value_two)
  have rw: "rewritten v doc doc'"
    by (simp add: rewritten_def doc'_def subtree_assign_all attrib_assign_all update_conv')
  have others: "\<forall>name. name \<noteq> DEFAULT_SUMOCFG \<longrightarrow> map_of (workdir s') name = map_of (workdir s) name"
    by (simp add: s'_def update_other_file)
  show ?thesis
    using r f val rw others by blast
qed

theorem add_rou_two_route_files_witness:
  "map_of sample_directory DEFAULT_SUMOCFG = Some (XmlDoc sample_config)
   \<and> distinct (map fst sample_directory)
   \<and> {name \<in> set (map fst sample_directory). sublist ''.rou.xml'' name}
        = {''a.rou.xml'', ''b.rou.xml''}
   \<and> (\<exists>s' doc' v e'.
         add_rou_to_default_sumocfg (sample_state sample_directory) = Inr s'
         \<and> map_of (workdir s') DEFAULT_SUMOCFG = Some (XmlDoc doc')
         \<and> (v = ''a.rou.xml,b.rou.xml'' \<or> v = ''b.rou.xml,a.rou.xml'')
         \<and> subtree doc' [0, 1] = Some e'
         \<and> attrib e' = [(''value'', v)]
         \<and> map_of (workdir s') ''a.rou.xml'' = Some Blob)"
proof -
  have h1: "map_of (workdir (sample_state sample_directory)) DEFAULT_SUMOCFG
      = Some (XmlDoc sample_config)"
    by (simp add: sample_state_def sample_directory_def names_defs)
  have h2: "distinct (map fst (workdir (sample_state sample_directory)))"
    by (simp add: sample_state_def sample_directory_def names_defs)
  have "set (filter (str_contains ''.rou.xml'') (map fst sample_directory))
      = {''a.rou.xml'', ''b.rou.xml''}"
    by (auto simp: sample_directory_def names_defs)
  then have h3: "{name \<in> set (map fst (workdir (sample_state sample_directory))).
      sublist ''.rou.xml'' name} = {''a.rou.xml'', ''b.rou.xml''}"
    by (simp add: sample_state_def str_contains_sublist)
  have at: "subtree sample_config [0, 1]
      = Some (Element ''route-files'' [(''value'', ''old.rou.xml'')] [] [] [])"
    by (simp add: sample_config_def)
  from add_rou_two_route_files [OF h1 h2 h3] obtain s' doc' v where r:
    "add_rou_to_default_sumocfg (sample_state sample_directory) = Inr s'
     \<and> map_of (workdir s') DEFAULT_SUMOCFG = Some (XmlDoc doc')
     \<and> (v = ''a.rou.xml,b.rou.xml'' \<or> v = ''b.rou.xml,a.rou.xml'')
     \<and> rewritten v sample_config doc'
     \<and> (\<forall>name. name \<noteq> DEFAULT_SUMOCFG \<longrightarrow>
           map_of (workdir s') name = map_of (workdir (sample_state sample_directory)) name)"
    by (elim exE) (rule that)
  from r have rw: "rewritten v sample_config doc'" by (elim conjE)
  from rw at obtain e' where e': "subtree doc' [0, 1] = Some e'"
    "tag (Element ''route-files'' [(''value'', ''old.rou.xml'')] [] [] []) = ''route-files'' \<longrightarrow>
       attrib e' = AList.update ''value'' v
         (attrib (Element ''route-files'' [(''value'', ''old.rou.xml'')] [] [] []))"
    unfolding rewritten_def by (elim conjE allE [of _ "[0, 1]"]) fastforce
  have a: "attrib e' = [(''value'', v)]"
    using e'(2) by simp
  from r have "map_of (workdir s') ''a.rou.xml''
      = map_of (workdir (sample_state sample_directory)) ''a.rou.xml''"
    by (elim conjE allE [of _ "''a.rou.xml''"]) (simp add: names_defs)
  then have o: "map_of (workdir s') ''a.rou.xml'' = Some Blob"
    by (simp add: sample_state_def sample_directory_def names_defs)
  note r1 = r [THEN conjunct1]
  note r2 = r [THEN conjunct2, THEN conjunct1]
  note r3 = r [THEN conjunct2, THEN conjunct2, THEN conjunct1]
  have c: "\<exists>s' doc' v e'.
         add_rou_to_default_sumocfg (sample_state sample_directory) = Inr s'
         \<and> map_of (workdir s') DEFAULT_SUMOCFG = Some (XmlDoc doc')
         \<and> (v = ''a.rou.xml,b.rou.xml'' \<or> v = ''b.rou.xml,a.rou.xml'')
         \<and> subtree doc' [0, 1] = Some e'
         \<and> attrib e' = [(''value'', v)]
         \<and> map_of (workdir s') ''a.rou.xml'' = Some Blob"
    by (intro exI [of _ s'] exI [of _ doc'] exI [of _ v] exI [of _ e'] conjI r1 r2 r3 e'(1) a o)
  have g1: "map_of sample_directory DEFAULT_SUMOCFG = Some (XmlDoc sample_config)"
    using h1 by (simp add: sample_state_def)
  have g2: "distinct (map fst sample_directory)"
    using h2 by (simp add: sample_state_def)
  have g3: "{name \<in> set (map fst sample_directory). sublist ''.rou.xml'' name}
        = {''a.rou.xml'', ''b.rou.xml''}"
    using h3 by (simp add: sample_state_def)
  show ?thesis
    by (intro conjI g1 g2 g3 c)
qed

subsection \<open>One matching element, or none\<close>

text \<open>
  C5 as the specification states it: on a document without a \<open>route-files\<close> element
  the rewriter performs no writes. The loop assigns nothing then, but the document is
  written back to the configuration file all the same.
\<close>

theorem add_rou_no_field_counterexample:
  "iter ''route-files'' sample_config_no_routes = []
   \<and> XmlWrite DEFAULT_SUMOCFG \<in> set (trace (final (add_rou_to_default_sumocfg
         (sample_state [(DEFAULT_SUMOCFG, XmlDoc sample_config_no_routes)]))))"
  by (simp add: sample_config_no_routes_def sample_state_def add_rou_to_default_sumocfg_def
      os_listdir_def ElementTree_parse_def ElementTree_write_def log_def Let_def)

text \<open>
  C5, amended: the rewriter returns after one parse and one write of the configuration
  file. When the document has exactly one \<open>route-files\<close> element, that element gets
  the attribute \<open>value\<close> assigned and keeps its tag, text, tail and children, and every
  other element keeps its tag, attributes, text and tail. When the document has no
  such element, nothing is assigned: the document written back is the one parsed and
  the directory is as before.
\<close>

theorem add_rou_one_or_no_field:
  assumes "map_of (workdir s) DEFAULT_SUMOCFG = Some (XmlDoc doc)"
  shows "\<exists>s' doc'.
     add_rou_to_default_sumocfg s = Inr s'
     \<and> map_of (workdir s') DEFAULT_SUMOCFG = Some (XmlDoc doc')
     \<and> trace s' = trace s @ [Enter Add_rou_to_default_sumocfg, ListDir,
           XmlParse DEFAULT_SUMOCFG, XmlWrite DEFAULT_SUMOCFG]
     \<and> (\<forall>field. iter ''route-files'' doc = [field] \<longrightarrow>
           assigned_at field (route_files_value (map fst (workdir s))) doc doc')
     \<and> (iter ''route-files'' doc = [] \<longrightarrow> doc' = doc \<and> workdir s' = workdir s)"
proof -
  define v where "v = route_files_value (map fst (workdir s))"
  define doc' where "doc' = set_route_files v doc"
  define s' where "s' = s\<lparr>workdir := AList.update DEFAULT_SUMOCFG (XmlDoc doc') (workdir s),
      trace := trace s @ [Enter Add_rou_to_default_sumocfg, ListDir,
        XmlParse DEFAULT_SUMOCFG, XmlWrite DEFAULT_SUMOCFG]\<rparr>"
  have r: "add_rou_to_default_sumocfg s = Inr s'"
    using add_rou_to_default_sumocfg_result [OF assms] by (simp add: s'_def doc'_def v_def)
  have f: "map_of (workdir s') DEFAULT_SUMOCFG = Some (XmlDoc doc')"
    by (simp add: s'_def update_conv')
  have t: "trace s' = trace s @ [Enter Add_rou_to_default_sumocfg, ListDir,
           XmlParse DEFAULT_SUMOCFG, XmlWrite DEFAULT_SUMOCFG]"
    by (simp add: s'_def)
  have one: "assigned_at field v doc doc'"
    if i: "iter ''route-files'' doc = [field]" for field
  proof -
    have d: "doc' = set_attrib field ''value'' v doc"
      by (simp add: doc'_def set_route_files_def i)
    have "field \<in> set (iter ''route-files'' doc)" using i by simp
    then obtain e where e: "subtree doc field = Some e" "tag e = ''route-files''"
      unfolding in_iter_iff by blast
    then show ?thesis
      unfolding d assigned_at_def
      by (simp add: subtree_set_attrib_same node_set_attrib_other shape_set_attrib)
  qed
  have zero: "doc' = doc \<and> workdir s' = workdir s" if "iter ''route-files'' doc = []"
    using that assms by (simp add: doc'_def set_route_files_def s'_def update_triv)
  show ?thesis
    using r f t one zero unfolding v_def by blast
qed

theorem add_rou_one_or_no_field_witness:
  "iter ''route-files'' sample_config = [[0, 1]]
   \<and> (\<exists>s' doc'.
         add_rou_to_default_sumocfg (sample_state [(DEFAULT_SUMOCFG, XmlDoc sample_config)]) = Inr s'
         \<and> map_of (workdir s') DEFAULT_SUMOCFG = Some (XmlDoc doc')
         \<and> assigned_at [0, 1] [] sample_config doc')
   \<and> iter ''route-files'' sample_config_no_routes = []
   \<and> (\<exists>s'.
         add_rou_to_default_sumocfg
           (sample_state [(DEFAULT_SUMOCFG, XmlDoc sample_config_no_routes)]) = Inr s'
         \<and> workdir s' = [(DEFAULT_SUMOCFG, XmlDoc sample_config_no_routes)])"
proof -
  let ?s1 = "sample_state [(DEFAULT_SUMOCFG, XmlDoc sample_config)]"
  let ?s0 = "sample_state [(DEFAULT_SUMOCFG, XmlDoc sample_config_no_routes)]"
  have i1: "iter ''route-files'' sample_config = [[0, 1]]"
    by (simp add: sample_config_def)
  have i0: "iter ''route-files'' sample_config_no_routes = []"
    by (simp add: sample_config_no_routes_def)
  have h1: "map_of (workdir ?s1) DEFAULT_SUMOCFG = Some (XmlDoc sample_config)"
    by (simp add: sample_state_def)
  have h0: "map_of (workdir ?s0) DEFAULT_SUMOCFG = Some (XmlDoc sample_config_no_routes)"
    by (simp add: sample_state_def)
  have v: "route_files_value (map fst (workdir ?s1)) = []"
    by (simp add: sample_state_def names_defs route_files_value_def str_strip_def)
  have w0: "workdir ?s0 = [(DEFAULT_SUMOCFG, XmlDoc sample_config_no_routes)]"
    by (simp add: sample_state_def)
  from add_rou_one_or_no_field [OF h1] obtain s1 doc1 where
    r1: "add_rou_to_default_sumocfg ?s1 = Inr s1"
    and f1: "map_of (workdir s1) DEFAULT_SUMOCFG = Some (XmlDoc doc1)"
    and a1: "\<forall>field. iter ''route-files'' sample_config = [field] \<longrightarrow>
           assigned_at field (route_files_value (map fst (workdir ?s1))) sample_config doc1"
    by (elim exE conjE) (rule that)
  from a1 i1 have a: "assigned_at [0, 1] [] sample_config doc1"
    unfolding v by (elim allE [of _ "[0, 1]"]) simp
  from add_rou_one_or_no_field [OF h0] obtain s0 doc0 where
    r0: "add_rou_to_default_sumocfg ?s0 = Inr s0"
    and z0: "iter ''route-files'' sample_config_no_routes = [] \<longrightarrow>
           doc0 = sample_config_no_routes \<and> workdir s0 = workdir ?s0"
    by (elim exE conjE) (rule that)
  from z0 i0 have z: "workdir s0 = [(DEFAULT_SUMOCFG, XmlDoc sample_config_no_routes)]"
    unfolding w0 by simp
  have c1: "\<exists>s' doc'.
         add_rou_to_default_sumocfg ?s1 = Inr s'
         \<and> map_of (workdir s') DEFAULT_SUMOCFG = Some (XmlDoc doc')
         \<and> assigned_at [0, 1] [] sample_config doc'"
    by (intro exI [of _ s1] exI [of _ doc1] conjI r1 f1 a)
  have c0: "\<exists>s'. add_rou_to_default_sumocfg ?s0 = Inr s'
         \<and> workdir s' = [(DEFAULT_SUMOCFG, XmlDoc sample_config_no_routes)]"
    by (intro exI [of _ s0] conjI r0 z)
  show ?thesis
    by (intro conjI i1 i0 c1 c0)
qed

subsection \<open>The rewriter on a directory without route files\<close>

text \<open>
  C8: when no name in the listing of the working directory contains \<open>.rou.xml\<close> (and
  the configuration file holds a document), the rewriter returns, the elements with
  the tag \<open>route-files\<close> are the same as before, and each of them has the attribute
  \<open>value\<close> set to the empty string in the document written back.
\<close>

theorem add_rou_no_route_files:
  assumes "map_of (workdir s) DEFAULT_SUMOCFG = Some (XmlDoc doc)"
    and "\<forall>name \<in> set (map fst (workdir s)). \<not> sublist ''.rou.xml'' name"
  shows "\<exists>s' doc'.
     add_rou_to_default_sumocfg s = Inr s'
     \<and> map_of (workdir s') DEFAULT_SUMOCFG = Some (XmlDoc doc')
     \<and> iter ''route-files'' doc' = iter ''route-files'' doc
     \<and> (\<forall>field \<in> set (iter ''route-files'' doc').
           \<exists>e. subtree doc' field = Some e \<and> map_of (attrib e) ''value'' = Some [])"
proof -
  let ?doc' = "assign_all ''route-files'' ''value'' [] doc"
  have v: "route_files_value (map fst (workdir s)) = []"
    using assms(2) by (intro route_files_value_none) (simp add: str_contains_sublist)
  have "\<exists>e. subtree ?doc' field = Some e \<and> map_of (attrib e) ''value'' = Some []"
    if "field \<in> set (iter ''route-files'' ?doc')" for field
  proof -
    from that obtain e1 where e1: "subtree doc field = Some e1" "tag e1 = ''route-files''"
      unfolding iter_assign_all in_iter_iff by blast
    then show ?thesis
      by (simp add: subtree_assign_all attrib_assign_all update_conv')
  qed
  then show ?thesis
    using add_rou_to_default_sumocfg_result [OF assms(1)]
    by (simp add: v set_route_files_assign_all update_conv' iter_assign_all)
qed

theorem add_rou_no_route_files_witness:
  "map_of [(''osm.net.xml'', Blob), (DEFAULT_SUMOCFG, XmlDoc sample_config)] DEFAULT_SUMOCFG
     = Some (XmlDoc sample_config)
   \<and> (\<exists>s' doc'.
     add_rou_to_default_sumocfg
       (sample_state [(''osm.net.xml'', Blob), (DEFAULT_SUMOCFG, XmlDoc sample_config)]) = Inr s'
     \<and> map_of (workdir s') DEFAULT_SUMOCFG = Some (XmlDoc doc')
     \<and> iter ''route-files'' doc' = [[0, 1]]
     \<and> (\<forall>field \<in> set (iter ''route-files'' doc').
           \<exists>e. subtree doc' field = Some e \<and> map_of (attrib e) ''value'' = Some []))"
proof -
  have a: "\<forall>name \<in> set (map fst [(''osm.net.xml'', Blob), (DEFAULT_SUMOCFG, XmlDoc sample_config)]).
      \<not> sublist ''.rou.xml'' name"
    by (simp add: names_defs str_contains_sublist [symmetric])
  have b: "iter ''route-files'' sample_config = [[0, 1]]"
    by (simp add: sample_config_def)
  show ?thesis
    using add_rou_no_route_files
      [of "sample_state [(''osm.net.xml'', Blob), (DEFAULT_SUMOCFG, XmlDoc sample_config)]"
          sample_config]
      a b
    by (simp add: sample_state_def names_defs)
qed

subsection \<open>The argument vector of the network conversion\<close>

lemma call_netconvert_trace:
  "trace (final (call_netconvert env filename lefthand s)) =
     trace s @ [Enter Call_netconvert, Subprocess (netconvert_options filename lefthand)]"
  by (simp add: call_netconvert_def subprocess_call_def log_def Let_def split: sum.splits prod.splits)

text \<open>
  C6 as the specification states it: the argument vector of the network conversion
  contains \<open>--lefthand\<close> if and only if the left-hand-traffic flag is set. The file
  name is copied into the vector as it is, so a map file whose base name is
  \<open>--lefthand\<close> puts the marker into the vector although the flag is unset.
\<close>

theorem netconvert_lefthand_counterexample:
  "''--lefthand'' \<in> set (netconvert_options ''--lefthand'' False)"
  by (simp add: netconvert_options_def)

text \<open>
  C6, amended: the vector built with the flag set is the vector built with the flag unset
  followed by \<open>--lefthand\<close> as its last element; for every map file whose base name is
  not itself \<open>--lefthand\<close> the vector contains \<open>--lefthand\<close> if and only if the flag
  is set; and this vector is the one handed to the subprocess.
\<close>

theorem netconvert_lefthand:
  "netconvert_options filename True = netconvert_options filename False @ [''--lefthand'']
   \<and> (filename \<noteq> ''--lefthand'' \<longrightarrow>
        (''--lefthand'' \<in> set (netconvert_options filename lefthand)) = lefthand)
   \<and> trace (final (call_netconvert env filename lefthand s)) =
        trace s @ [Enter Call_netconvert, Subprocess (netconvert_options filename lefthand)]"
  by (simp add: call_netconvert_trace) (auto simp: netconvert_options_def names_defs Let_def)

theorem netconvert_lefthand_witness:
  "''map.osm'' \<noteq> ''--lefthand''
   \<and> ''--lefthand'' \<in> set (netconvert_options ''map.osm'' True)
   \<and> ''--lefthand'' \<notin> set (netconvert_options ''map.osm'' False)"
  using netconvert_lefthand [of "''map.osm''" True] netconvert_lefthand [of "''map.osm''" False]
  by simp

subsection \<open>The trace of a run\<close>

lemma entered_append: "entered (xs @ ys) = entered xs @ entered ys"
  by (induction xs rule: entered.induct) simp_all

lemma prefix_entered: "prefix xs ys \<Longrightarrow> prefix (entered xs) (entered ys)"
  by (auto simp: prefix_def entered_append)

lemma set_prefix_subset: "prefix xs ys \<Longrightarrow> set xs \<subseteq> set ys"
  by (auto simp: prefix_def)


lemma step_eventsI:
  assumes "\<And>s. \<exists>done. trace (final (f s)) = trace s @ done \<and> prefix done evs
        \<and> (\<forall>s'. f s = Inr s' \<longrightarrow> done = evs)"
  shows "step_events f evs"
  using assms unfolding step_events_def by blast

lemma step_events_profiler_enable: "step_events profiler_enable [ProfilerEnable]"
  by (rule step_eventsI) (simp add: profiler_enable_def log_def)

lemma step_events_profiler_report: "step_events profiler_report [ProfilerReport]"
  by (rule step_eventsI) (simp add: profiler_report_def log_def)

lemma step_events_os_makedirs: "step_events (os_makedirs p) [MakeDirs p]"
  by (rule step_eventsI)
     (simp add: os_makedirs_def log_def Let_def split: option.splits content.splits)

lemma step_events_os_makedirs_cwd: "step_events (os_makedirs_cwd p) [MakeDirs p]"
  by (rule step_eventsI)
     (simp add: os_makedirs_cwd_def log_def Let_def split: option.splits content.splits)

lemma step_events_shutil_copy: "step_events (shutil_copy src dst) [Copy src dst]"
  by (rule step_eventsI)
     (simp add: shutil_copy_def log_def Let_def split: option.splits content.splits)

lemma step_events_os_chdir: "step_events (os_chdir p) [ChDir p]"
  by (rule step_eventsI) (simp add: os_chdir_def log_def)

lemma subprocess_call_trace:
  "subprocess_call env argv s = Inl (e, s') \<Longrightarrow> trace s' = trace s @ [Subprocess argv]"
  "subprocess_call env argv s = Inr (status, s') \<Longrightarrow> trace s' = trace s @ [Subprocess argv]"
  by (auto simp: subprocess_call_def log_def Let_def split: sum.splits prod.splits)

lemma call_module_trace:
  "trace (final (call_module env m argv s)) = trace s @ [ModuleMain m argv]"
  by (simp add: call_module_def log_def Let_def split: sum.splits)

lemma step_events_call_module:
  "step_events (\<lambda>s. call_module env m argv (log (Enter f) s)) [Enter f, ModuleMain m argv]"
  by (rule step_eventsI) (simp add: call_module_trace log_def)

lemma step_events_subprocess:
  "step_events
     (\<lambda>s. case subprocess_call env argv (log (Enter f) s) of
             Inl x \<Rightarrow> Inl x | Inr (status, s') \<Rightarrow> Inr s')
     [Enter f, Subprocess argv]"
  by (rule step_eventsI)
     (auto simp: log_def dest!: subprocess_call_trace split: sum.splits prod.splits)

lemma step_events_call_netconvert:
  "step_events (call_netconvert env filename lefthand)
     [Enter Call_netconvert, Subprocess (netconvert_options filename lefthand)]"
  using step_events_subprocess [of env "netconvert_options filename lefthand" Call_netconvert]
  by (simp add: call_netconvert_def [abs_def])

lemma step_events_call_polyconvert:
  "step_events (call_polyconvert env filename)
     [Enter Call_polyconvert, Subprocess (polyconvert_options filename)]"
  using step_events_subprocess [of env "polyconvert_options filename" Call_polyconvert]
  by (simp add: call_polyconvert_def [abs_def])

lemma step_events_call_sumo:
  "step_events (call_sumo env) [Enter Call_sumo, Subprocess [''sumo'', ''-c'', DEFAULT_SUMOCFG]]"
  using step_events_subprocess [of env "[''sumo'', ''-c'', DEFAULT_SUMOCFG]" Call_sumo]
  by (simp add: call_sumo_def [abs_def])

lemma step_events_merge_parking_files:
  "step_events (merge_parking_files a b c)
     [Enter Merge_parking_files, XmlParse a, XmlParse b, XmlWrite c]"
  by (rule step_eventsI)
     (simp add: merge_parking_files_def ElementTree_parse_def ElementTree_write_def log_def
        Let_def split: option.splits content.splits)

lemma step_events_add_rou:
  "step_events add_rou_to_default_sumocfg
     [Enter Add_rou_to_default_sumocfg, ListDir, XmlParse DEFAULT_SUMOCFG,
      XmlWrite DEFAULT_SUMOCFG]"
  by (rule step_eventsI)
     (simp add: add_rou_to_default_sumocfg_def os_listdir_def ElementTree_parse_def
        ElementTree_write_def log_def Let_def split: option.splits content.splits)

lemma step_events_call_pt_lines_to_flows:
  "step_events (call_pt_lines_to_flows env)
     [Enter Call_pt_lines_to_flows, ModuleMain Ptlines2flows pt_flows_options]"
  using step_events_call_module [of env Ptlines2flows pt_flows_options Call_pt_lines_to_flows]
  by (simp add: call_pt_lines_to_flows_def [abs_def])

lemma step_events_call_generate_parking_areas_from_osm:
  "step_events (call_generate_parking_areas_from_osm env filename)
     [Enter Call_generate_parking_areas_from_osm,
      ModuleMain GenerateParkingAreasFromOSM (parking_options filename)]"
  using step_events_call_module [of env GenerateParkingAreasFromOSM "parking_options filename"
      Call_generate_parking_areas_from_osm]
  by (simp add: call_generate_parking_areas_from_osm_def [abs_def])

lemma step_events_call_generate_parking_area_rerouters:
  "step_events (call_generate_parking_area_rerouters env)
     [Enter Call_generate_parking_area_rerouters,
      ModuleMain GenerateParkingAreaRerouters rerouters_options]"
  using step_events_call_module [of env GenerateParkingAreaRerouters rerouters_options
      Call_generate_parking_area_rerouters]
  by (simp add: call_generate_parking_area_rerouters_def [abs_def])

lemma step_events_call_generate_taz_buildings_from_osm:
  "step_events (call_generate_taz_buildings_from_osm env filename)
     [Enter Call_generate_taz_buildings_from_osm,
      ModuleMain GenerateTAZBuildingsFromOSM (taz_buildings_options filename)]"
  using step_events_call_module [of env GenerateTAZBuildingsFromOSM
      "taz_buildings_options filename" Call_generate_taz_buildings_from_osm]
  by (simp add: call_generate_taz_buildings_from_osm_def [abs_def])

lemma step_events_call_generate_amitran_from_taz_weights:
  "step_events (call_generate_amitran_from_taz_weights env)
     [Enter Call_generate_amitran_from_taz_weights,
      ModuleMain GenerateAmitranFromTAZWeights odmatrix_options]"
  using step_events_call_module [of env GenerateAmitranFromTAZWeights odmatrix_options
      Call_generate_amitran_from_taz_weights]
  by (simp add: call_generate_amitran_from_taz_weights_def [abs_def])

lemma step_events_call_generate_defaults_activitygen:
  "step_events (call_generate_defaults_activitygen env)
     [Enter Call_generate_defaults_activitygen,
      ModuleMain GenerateDefaultsActivityGen default_options]"
  using step_events_call_module [of env GenerateDefaultsActivityGen default_options
      Call_generate_defaults_activitygen]
  by (simp add: call_generate_defaults_activitygen_def [abs_def])

lemma step_events_call_activitygen:
  "step_events (call_activitygen env)
     [Enter Call_activitygen, ModuleMain Activitygen activitygen_options]"
  using step_events_call_module [of env Activitygen activitygen_options Call_activitygen]
  by (simp add: call_activitygen_def [abs_def])

lemmas step_events_stages =
  step_events_profiler_enable step_events_profiler_report step_events_os_makedirs
  step_events_os_makedirs_cwd step_events_shutil_copy step_events_os_chdir
  step_events_call_netconvert step_events_call_polyconvert step_events_call_sumo
  step_events_merge_parking_files step_events_add_rou
  step_events_call_pt_lines_to_flows step_events_call_generate_parking_areas_from_osm
  step_events_call_generate_parking_area_rerouters
  step_events_call_generate_taz_buildings_from_osm
  step_events_call_generate_amitran_from_taz_weights
  step_events_call_generate_defaults_activitygen step_events_call_activitygen

lemma run_steps_events:
  assumes "list_all2 step_events fs evss"
  shows "\<exists>done. trace (final (run_steps fs s)) = trace s @ done \<and> prefix done (concat evss)
        \<and> (\<forall>s'. run_steps fs s = Inr s' \<longrightarrow> done = concat evss)"
  using assms
proof (induction fs evss arbitrary: s rule: list_all2_induct)
  case Nil
  show ?case by simp
next
  case (Cons f fs evs evss)
  from Cons.hyps(1) obtain d1 where d1: "trace (final (f s)) = trace s @ d1" "prefix d1 evs"
    "\<forall>s'. f s = Inr s' \<longrightarrow> d1 = evs"
    unfolding step_events_def by blast
  show ?case
  proof (cases "f s")
    case (Inl x)
    then have "trace (final (run_steps (f # fs) s)) = trace s @ d1"
      using d1(1) by simp
    moreover have "prefix d1 (concat (evs # evss))"
      using d1(2) by (simp add: prefix_def) (metis append.assoc)
    ultimately show ?thesis using Inl by auto
  next
    case (Inr s1)
    then have e: "d1 = evs" "trace s1 = trace s @ evs"
      using d1 by auto
    from Cons.IH [of s1] obtain d2 where d2: "trace (final (run_steps fs s1)) = trace s1 @ d2"
      "prefix d2 (concat evss)" "\<forall>s'. run_steps fs s1 = Inr s' \<longrightarrow> d2 = concat evss"
      by blast
    have "trace (final (run_steps (f # fs) s)) = trace s @ (evs @ d2)"
      using Inr e d2(1) by simp
    moreover have "prefix (evs @ d2) (concat (evs # evss))"
      using d2(2) by simp
    moreover have "\<forall>s'. run_steps (f # fs) s = Inr s' \<longrightarrow> evs @ d2 = concat (evs # evss)"
      using Inr d2(3) by simp
    ultimately show ?thesis by blast
  qed
qed

lemma run_steps_append:
  "run_steps (fs @ gs) s =
     (case run_steps fs s of Inl x \<Rightarrow> Inl x | Inr s' \<Rightarrow> run_steps gs s')"
  by (induction fs arbitrary: s) (auto split: sum.splits)

subsection \<open>The order of the steps of main\<close>

lemma main_steps_events: "list_all2 step_events (main_steps env args) (main_step_events args)"
  by (cases "profiling args")
     (simp_all add: main_steps_def main_step_events_def template_files_def Let_def
        step_events_stages)

lemma concat_main_step_events: "concat (main_step_events args) = main_events args"
  by (cases "profiling args")
     (simp_all add: main_step_events_def main_events_def setup_events_def stage_events_def
        template_files_def Let_def)

lemma run_main_steps_events:
  "\<exists>done. trace (final (run_steps (main_steps env args) s)) = trace s @ done
     \<and> prefix done (main_events args)
     \<and> (\<forall>s'. run_steps (main_steps env args) s = Inr s' \<longrightarrow> done = main_events args)"
  using run_steps_events [OF main_steps_events, of env args s]
  by (simp add: concat_main_step_events)

lemma main_trace:
  "\<exists>done. trace (final (main env cmd_args s)) = trace s @ done
     \<and> (case argparse env cmd_args of
           Inl status \<Rightarrow> done = []
         | Inr args \<Rightarrow> prefix done (main_events args)
             \<and> (\<forall>s'. main env cmd_args s = Inr s' \<longrightarrow> done = main_events args))"
proof (cases "argparse env cmd_args")
  case (Inl status)
  then show ?thesis by (simp add: main_def)
next
  case (Inr args)
  then show ?thesis using run_main_steps_events [of env args s] by (simp add: main_def)
qed



subsection \<open>Two sample runs\<close>

lemmas run_defs =
  main_def main_steps_def os_makedirs_def shutil_copy_def os_chdir_def os_makedirs_cwd_def
  call_netconvert_def call_polyconvert_def call_sumo_def subprocess_call_def
  call_pt_lines_to_flows_def call_generate_parking_areas_from_osm_def
  call_generate_parking_area_rerouters_def call_generate_taz_buildings_from_osm_def
  call_generate_amitran_from_taz_weights_def call_generate_defaults_activitygen_def
  call_activitygen_def call_module_def merge_parking_files_def
  add_rou_to_default_sumocfg_def os_listdir_def ElementTree_parse_def ElementTree_write_def
  log_def Let_def basename_def dirname_def names_defs netconvert_options_def
  polyconvert_options_def

lemma sample_run_returns: "\<exists>s'. main sample_env [] sample_launch = Inr s'"
  by (simp add: run_defs sample_env_def sample_options_def sample_launch_def)


lemma sample_run_trace:
  "trace (final (main sample_env [] sample_launch)) = main_events sample_options"
proof -
  obtain s' where r: "main sample_env [] sample_launch = Inr s'"
    using sample_run_returns by blast
  have a: "argparse sample_env [] = Inr sample_options" by (simp add: sample_env_def)
  obtain d where "trace (final (main sample_env [] sample_launch)) = trace sample_launch @ d"
    "\<forall>s'. main sample_env [] sample_launch = Inr s' \<longrightarrow> d = main_events sample_options"
    using main_trace [of sample_env "[]" sample_launch] by (auto simp: a)
  then show ?thesis using r by (simp add: sample_launch_def)
qed

subsection \<open>Exit statuses of the processes\<close>

lemma subprocess_call_with_status:
  "(case subprocess_call (with_status f env) argv s of
      Inl x \<Rightarrow> Inl x | Inr (status, s') \<Rightarrow> Inr s')
   = (case subprocess_call env argv s of Inl x \<Rightarrow> Inl x | Inr (status, s') \<Rightarrow> Inr s')"
  by (simp add: subprocess_call_def with_status_def Let_def split: sum.splits prod.splits)

lemma call_module_with_status:
  "call_module (with_status f env) m argv s = call_module env m argv s"
  by (simp add: call_module_def with_status_def)

lemma call_netconvert_with_status:
  "call_netconvert (with_status f env) filename lefthand = call_netconvert env filename lefthand"
  by (rule ext) (simp add: call_netconvert_def subprocess_call_with_status)

lemma call_polyconvert_with_status:
  "call_polyconvert (with_status f env) filename = call_polyconvert env filename"
  by (rule ext) (simp add: call_polyconvert_def subprocess_call_with_status)

lemma call_sumo_with_status: "call_sumo (with_status f env) = call_sumo env"
  by (rule ext) (simp add: call_sumo_def subprocess_call_with_status)

lemma main_steps_with_status: "main_steps (with_status f env) args = main_steps env args"
  by (simp add: main_steps_def call_netconvert_with_status call_polyconvert_with_status
      call_sumo_with_status call_pt_lines_to_flows_def [abs_def]
      call_generate_parking_areas_from_osm_def [abs_def]
      call_generate_parking_area_rerouters_def [abs_def]
      call_generate_taz_buildings_from_osm_def [abs_def]
      call_generate_amitran_from_taz_weights_def [abs_def]
      call_generate_defaults_activitygen_def [abs_def]
      call_activitygen_def [abs_def] call_module_with_status)

lemma argparse_with_status: "argparse (with_status f env) = argparse env"
  by (simp add: with_status_def)

lemma main_with_status: "main (with_status f env) = main env"
  by (intro ext)
     (simp add: main_def main_steps_with_status argparse_with_status split: sum.splits)

text \<open>
  C3: the network converter, the polygon converter and the simulator are run through
  \<open>subprocess.call\<close>, and the status it returns is dropped. Replacing the exit status of
  every process by any other status (\<open>f\<close> computes the new one; the constant 0 is the
  successful run) changes nothing in what the three calling functions, \<open>main\<close> or the
  script do: the same next stages run on the same files.
\<close>

theorem exit_status_never_inspected:
  "call_netconvert (with_status f env) filename lefthand s = call_netconvert env filename lefthand s
   \<and> call_polyconvert (with_status f env) filename s = call_polyconvert env filename s
   \<and> call_sumo (with_status f env) s = call_sumo env s
   \<and> main (with_status f env) cmd_args s = main env cmd_args s
   \<and> script (with_status f env) sumo_home cmd_args s = script env sumo_home cmd_args s"
  by (simp add: call_netconvert_with_status call_polyconvert_with_status call_sumo_with_status
      main_with_status script_def)

subsection \<open>The order of the stages\<close>




subsection \<open>Start and end of the process\<close>

text \<open>
  C7: without \<open>SUMO_HOME\<close> the script ends at once with its fixed message, and nothing
  has been done (the state, trace included, is as it was). Whenever \<open>main\<close> returns, the
  process ends with status 0, whatever the exit statuses of the external processes
  were.
\<close>

theorem exit_of_script:
  "script env False cmd_args s = (ExitMessage missing_sumo_home, s)
   \<and> (\<forall>s'. main env cmd_args s = Inr s' \<longrightarrow>
         script env True cmd_args s = (ExitStatus 0, s')
         \<and> script (with_status f env) True cmd_args s = (ExitStatus 0, s'))"
  by (simp add: script_def main_with_status)

theorem exit_of_script_witness:
  "\<exists>s'. main sample_env [] sample_launch = Inr s'
     \<and> script sample_env True [] sample_launch = (ExitStatus 0, s')
     \<and> spawn sample_env [''sumo'', ''-c'', DEFAULT_SUMOCFG] (workdir s') = Inr (workdir s', 1)"
proof -
  obtain s' where r: "main sample_env [] sample_launch = Inr s'"
    using sample_run_returns by blast
  note e = exit_of_script [where env = sample_env and cmd_args = "[]" and s = sample_launch
      and f = "\<lambda>argv d status. 0"]
  have "script sample_env True [] sample_launch = (ExitStatus 0, s')"
    using e [THEN conjunct2, rule_format, OF r] by (rule conjunct1)
  moreover have "spawn sample_env [''sumo'', ''-c'', DEFAULT_SUMOCFG] (workdir s')
      = Inr (workdir s', 1)"
    by (simp add: sample_env_def)
  ultimately show ?thesis using r by (intro exI [of _ s'] conjI)
qed

subsection \<open>The workspace set-up\<close>

lemma shutil_copy_Inr_iff:
  "shutil_copy src dst s = Inr s' \<longleftrightarrow>
     copy_ok src dst s
     \<and> s' = s\<lparr>workdir := AList.update (basename src) (the (launch_files s src)) (workdir s),
              trace := trace s @ [Copy src dst]\<rparr>"
  by (auto simp: shutil_copy_def copy_ok_def log_def Let_def
      split: option.splits content.splits)

lemma copy_ok_update:
  assumes "copy_ok src dst s"
  shows "copy_ok src' dst
      (s\<lparr>workdir := AList.update (basename src) (the (launch_files s src)) (workdir s),
         trace := t\<rparr>) \<longleftrightarrow> copy_ok src' dst s"
  using assms by (auto simp: copy_ok_def update_conv')

lemma run_copies_Inr:
  "run_steps (map (\<lambda>src. shutil_copy src dst) srcs) s = Inr s' \<Longrightarrow>
     (\<forall>src \<in> set srcs. copy_ok src dst s)
     \<and> launch_files s' = launch_files s \<and> same_file s' = same_file s
     \<and> workdir s' =
         fold (\<lambda>src. AList.update (basename src) (the (launch_files s src))) srcs (workdir s)"
proof (induction srcs arbitrary: s)
  case Nil
  then show ?case by simp
next
  case (Cons src srcs)
  define s1 where "s1 =
    s\<lparr>workdir := AList.update (basename src) (the (launch_files s src)) (workdir s),
      trace := trace s @ [Copy src dst]\<rparr>"
  from Cons.prems have ok: "copy_ok src dst s"
    and r: "run_steps (map (\<lambda>src. shutil_copy src dst) srcs) s1 = Inr s'"
    by (auto simp: s1_def shutil_copy_Inr_iff split: sum.splits)
  have l: "launch_files s1 = launch_files s" "same_file s1 = same_file s"
    "workdir s1 = AList.update (basename src) (the (launch_files s src)) (workdir s)"
    by (simp_all add: s1_def)
  have "\<forall>src' \<in> set srcs. copy_ok src' dst s"
    using Cons.IH [OF r] copy_ok_update [OF ok] by (simp add: s1_def)
  then show ?case
    using ok Cons.IH [OF r] l by simp
qed

lemma run_copies_ok:
  "\<forall>src \<in> set srcs. copy_ok src dst s \<Longrightarrow>
     \<exists>s'. run_steps (map (\<lambda>src. shutil_copy src dst) srcs) s = Inr s'"
proof (induction srcs arbitrary: s)
  case Nil
  show ?case by simp
next
  case (Cons src srcs)
  define s1 where "s1 =
    s\<lparr>workdir := AList.update (basename src) (the (launch_files s src)) (workdir s),
      trace := trace s @ [Copy src dst]\<rparr>"
  have ok: "copy_ok src dst s" using Cons.prems by simp
  then have c: "shutil_copy src dst s = Inr s1"
    by (simp add: shutil_copy_Inr_iff s1_def)
  have "\<forall>src' \<in> set srcs. copy_ok src' dst s1"
    using Cons.prems copy_ok_update [OF ok] by (simp add: s1_def)
  from Cons.IH [OF this] show ?case
    using c by simp
qed

lemma os_makedirs_Inr_iff:
  "os_makedirs p s = Inr s' \<longleftrightarrow>
     p \<noteq> [] \<and> (\<forall>c. launch_files s p = Some c \<longrightarrow> c = Dir) \<and> s' = log (MakeDirs p) s"
  by (auto simp: os_makedirs_def Let_def split: option.splits content.splits)

lemma map_of_fold_update_other:
  "name \<notin> f ` set srcs \<Longrightarrow>
     map_of (fold (\<lambda>src. AList.update (f src) (g src)) srcs d) name = map_of d name"
  by (induction srcs arbitrary: d) (simp_all add: update_conv')

lemma setup_steps_Inr:
  assumes "run_steps (setup_steps args) s = Inr s1"
  shows "setup_ok args s \<and> copied args s s1"
proof -
  define s0 where "s0 = (if profiling args then log ProfilerEnable s else s)"
  have l0: "launch_files s0 = launch_files s" "same_file s0 = same_file s"
    "workdir s0 = workdir s"
    by (simp_all add: s0_def log_def)
  have "run_steps (os_makedirs (out_dir args) #
      map (\<lambda>src. shutil_copy src (out_dir args)) (osm_file args # template_files)) s0 = Inr s1"
    using assms by (cases "profiling args") (simp_all add: setup_steps_def s0_def profiler_enable_def)
  then obtain sm where sm: "os_makedirs (out_dir args) s0 = Inr sm"
    and r: "run_steps (map (\<lambda>src. shutil_copy src (out_dir args))
        (osm_file args # template_files)) sm = Inr s1"
    by (auto split: sum.splits)
  from sm have m: "out_dir args \<noteq> []" "\<forall>c. launch_files s (out_dir args) = Some c \<longrightarrow> c = Dir"
    and lm: "launch_files sm = launch_files s" "same_file sm = same_file s"
      "workdir sm = workdir s"
    by (auto simp: os_makedirs_Inr_iff l0 log_def)
  note c = run_copies_Inr [OF r]
  have oks: "\<forall>src \<in> set (osm_file args # template_files). copy_ok src (out_dir args) s"
    using c lm by (simp add: copy_ok_def)
  have w: "workdir s1 =
      fold (\<lambda>src. AList.update (basename src) (the (launch_files s src)))
        (osm_file args # template_files) (workdir s)"
    using c lm by simp
  have some: "Some (the (launch_files s src)) = launch_files s src"
    if "src \<in> set (osm_file args # template_files)" for src
    using oks that by (auto simp: copy_ok_def)
  have t: "\<forall>t \<in> set template_files. map_of (workdir s1) (basename t) = launch_files s t"
    using some by (simp add: w template_files_def update_conv' basename_def)
  have o: "basename (osm_file args) \<notin> basename ` set template_files \<longrightarrow>
      map_of (workdir s1) (basename (osm_file args)) = launch_files s (osm_file args)"
    using some by (auto simp: w template_files_def update_conv')
  have n: "\<forall>name. name \<notin> basename ` set (osm_file args # template_files) \<longrightarrow>
      map_of (workdir s1) name = map_of (workdir s) name"
    unfolding w by (intro allI impI map_of_fold_update_other)
  show ?thesis
    using m oks t o n c lm by (simp add: setup_ok_def copied_def)
qed

lemma setup_steps_ok:
  assumes "setup_ok args s"
  shows "\<exists>s1. run_steps (setup_steps args) s = Inr s1"
proof -
  define s0 where "s0 = (if profiling args then log ProfilerEnable s else s)"
  define sm where "sm = log (MakeDirs (out_dir args)) s0"
  have "os_makedirs (out_dir args) s0 = Inr sm"
    using assms by (simp add: os_makedirs_Inr_iff setup_ok_def s0_def sm_def log_def)
  moreover have "\<forall>src \<in> set (osm_file args # template_files). copy_ok src (out_dir args) sm"
    using assms by (simp add: setup_ok_def copy_ok_def s0_def sm_def log_def)
  from run_copies_ok [OF this] obtain s1 where
    "run_steps (map (\<lambda>src. shutil_copy src (out_dir args))
        (osm_file args # template_files)) sm = Inr s1" by blast
  ultimately have "run_steps (os_makedirs (out_dir args) #
      map (\<lambda>src. shutil_copy src (out_dir args)) (osm_file args # template_files)) s0 = Inr s1"
    by simp
  then show ?thesis
    by (cases "profiling args") (auto simp: setup_steps_def s0_def profiler_enable_def)
qed

lemma no_chdir_in_setup: "ChDir d \<notin> set (setup_events args)"
  by (auto simp: setup_events_def)

lemma entered_setup_events: "entered (setup_events args) = []"
  by (simp add: setup_events_def template_files_def)

lemma length_setup_steps: "length (setup_steps args) = (if profiling args then 8 else 7)"
  by (simp add: setup_steps_def template_files_def)

lemma main_steps_split:
  "main_steps env args = setup_steps args @ os_chdir (out_dir args) # stage_steps env args"
  by (cases "profiling args")
     (simp_all add: stage_steps_def length_setup_steps main_steps_def setup_steps_def
        template_files_def Let_def)

lemma stage_steps_events:
  "\<exists>evss. list_all2 step_events (stage_steps env args) evss \<and> concat evss = stage_events args"
proof -
  let ?evss = "drop (Suc (length (setup_steps args))) (main_step_events args)"
  have "list_all2 step_events (stage_steps env args) ?evss"
    unfolding stage_steps_def using main_steps_events by (rule list_all2_dropI)
  moreover have "concat ?evss = stage_events args"
    by (cases "profiling args")
       (simp_all add: length_setup_steps main_step_events_def stage_events_def
          template_files_def Let_def)
  ultimately show ?thesis by blast
qed

lemma setup_steps_events:
  "\<exists>evss. list_all2 step_events (setup_steps args) evss \<and> concat evss = setup_events args"
proof -
  let ?evss = "(if profiling args then [[ProfilerEnable]] else []) @
        [MakeDirs (out_dir args)] #
        map (\<lambda>src. [Copy src (out_dir args)]) (osm_file args # template_files)"
  have "list_all2 step_events (setup_steps args) ?evss"
    by (cases "profiling args")
       (simp_all add: setup_steps_def template_files_def step_events_profiler_enable
          step_events_os_makedirs step_events_shutil_copy)
  moreover have "concat ?evss = setup_events args"
    by (cases "profiling args") (simp_all add: setup_events_def template_files_def)
  ultimately show ?thesis by blast
qed

text \<open>
  C9: the statements of \<open>main\<close> are the set-up (creation of the output directory, copy
  of the map file, copies of the five templates, whose paths all start with
  \<open>defaults/\<close> and are resolved from the directory the script is started in), then
  \<open>os.chdir\<close>, then the stages. The working directory changes exactly in the runs
  in which the set-up finds what it needs there (\<open>setup_ok\<close>: among others, every
  template is a regular file of the \<open>defaults\<close> folder). It then changes right after
  the six copies, in a state in which the output directory holds the copied files
  (\<open>copied\<close>), and no copy and no second change of directory follows. In every other
  run an exception ends the run during the set-up, before the working directory
  changes and before any stage is entered.
\<close>

theorem templates_before_chdir:
  assumes "argparse env cmd_args = Inr args"
  shows "main_steps env args = setup_steps args @ os_chdir (out_dir args) # stage_steps env args
     \<and> (\<forall>src \<in> set template_files. prefix ''defaults/'' src)
     \<and> (\<forall>e \<in> set (stage_events args). \<forall>src dst. e \<noteq> Copy src dst \<and> e \<noteq> ChDir dst)
     \<and> (\<exists>done. trace (final (main env cmd_args s)) = trace s @ done
          \<and> (ChDir (out_dir args) \<in> set done \<longleftrightarrow> setup_ok args s)
          \<and> (setup_ok args s \<longrightarrow>
                (\<exists>rest. done = setup_events args @ ChDir (out_dir args) # rest
                   \<and> prefix rest (stage_events args))
                \<and> (\<exists>s1. run_steps (setup_steps args) s = Inr s1
                      \<and> copied args s s1
                      \<and> main env cmd_args s =
                          run_steps (stage_steps env args) (log (ChDir (out_dir args)) s1)))
          \<and> (\<not> setup_ok args s \<longrightarrow>
                prefix done (setup_events args) \<and> entered done = []
                \<and> (\<exists>x. main env cmd_args s = Inl x))
          \<and> ((\<exists>src \<in> set template_files. launch_files s src = None) \<longrightarrow>
                \<not> setup_ok args s))"
proof -
  let ?out = "out_dir args"
  obtain evss where stages: "list_all2 step_events (stage_steps env args) evss"
    "concat evss = stage_events args"
    using stage_steps_events [of env args] by blast
  obtain evss1 where prep: "list_all2 step_events (setup_steps args) evss1"
    "concat evss1 = setup_events args"
    using setup_steps_events [of args] by blast
  have m: "main env cmd_args s =
      (case run_steps (setup_steps args) s of
         Inl x \<Rightarrow> Inl x
       | Inr s1 \<Rightarrow> run_steps (stage_steps env args) (log (ChDir ?out) s1))"
  proof -
    have m0: "main env cmd_args s =
        run_steps (setup_steps args @ os_chdir ?out # stage_steps env args) s"
      using main_steps_split [of env args] by (simp add: main_def assms)
    have m1: "run_steps (setup_steps args @ os_chdir ?out # stage_steps env args) s =
        (case run_steps (setup_steps args) s of
           Inl x \<Rightarrow> Inl x
         | Inr s1 \<Rightarrow> run_steps (os_chdir ?out # stage_steps env args) s1)"
      by (rule run_steps_append)
    have m2: "run_steps (os_chdir ?out # stage_steps env args) s1
        = run_steps (stage_steps env args) (log (ChDir ?out) s1)" for s1
      by (simp add: os_chdir_def)
    show ?thesis
      unfolding m0 m1 m2 by (rule refl)
  qed
  obtain d1 where d1: "trace (final (run_steps (setup_steps args) s)) = trace s @ d1"
    "prefix d1 (setup_events args)"
    "\<forall>s'. run_steps (setup_steps args) s = Inr s' \<longrightarrow> d1 = setup_events args"
    using run_steps_events [OF prep(1), of s] unfolding prep(2) by blast
  have closed1: "\<forall>src \<in> set template_files. prefix ''defaults/'' src"
    by (simp add: template_files_def)
  have closed2: "\<forall>e \<in> set (stage_events args). \<forall>src dst. e \<noteq> Copy src dst \<and> e \<noteq> ChDir dst"
    by (simp add: stage_events_def Let_def)
  have missing: "(\<exists>src \<in> set template_files. launch_files s src = None) \<longrightarrow> \<not> setup_ok args s"
    unfolding setup_ok_def copy_ok_def by fastforce
  let ?I = "\<lambda>done. ChDir ?out \<in> set done \<longleftrightarrow> setup_ok args s"
  let ?A = "\<lambda>done. setup_ok args s \<longrightarrow>
                (\<exists>rest. done = setup_events args @ ChDir ?out # rest
                   \<and> prefix rest (stage_events args))
                \<and> (\<exists>s1. run_steps (setup_steps args) s = Inr s1
                      \<and> copied args s s1
                      \<and> main env cmd_args s =
                          run_steps (stage_steps env args) (log (ChDir ?out) s1))"
  let ?B = "\<lambda>done. \<not> setup_ok args s \<longrightarrow>
                prefix done (setup_events args) \<and> entered done = []
                \<and> (\<exists>x. main env cmd_args s = Inl x)"
  have "\<exists>done. trace (final (main env cmd_args s)) = trace s @ done
      \<and> ?I done \<and> ?A done \<and> ?B done \<and>
      ((\<exists>src \<in> set template_files. launch_files s src = None) \<longrightarrow> \<not> setup_ok args s)"
  proof (cases "run_steps (setup_steps args) s")
    case (Inl x)
    then have r: "main env cmd_args s = Inl x" using m by simp
    have nok: "\<not> setup_ok args s"
      using setup_steps_ok [of args s] Inl by auto
    have t: "trace (final (main env cmd_args s)) = trace s @ d1"
      using d1(1) Inl r by simp
    have n: "ChDir ?out \<notin> set d1"
      using set_prefix_subset [OF d1(2)] no_chdir_in_setup by blast
    have e: "entered d1 = []"
      using prefix_entered [OF d1(2)] by (simp add: entered_setup_events)
    have i: "?I d1" using n nok by simp
    have a: "?A d1" using nok by simp
    have b: "?B d1" using d1(2) e r by simp
    show ?thesis
      by (intro exI [of _ d1] conjI t i a b missing)
  next
    case (Inr s1)
    then have t1: "trace s1 = trace s @ setup_events args"
      using d1 by auto
    have ok: "setup_ok args s" and cp: "copied args s s1"
      using setup_steps_Inr [OF Inr] by simp_all
    have ms: "main env cmd_args s = run_steps (stage_steps env args) (log (ChDir ?out) s1)"
      using m Inr by simp
    obtain d3 where d3:
      "trace (final (run_steps (stage_steps env args) (log (ChDir ?out) s1)))
         = trace (log (ChDir ?out) s1) @ d3"
      "prefix d3 (stage_events args)"
      using run_steps_events [OF stages(1), of "log (ChDir ?out) s1"] stages(2)
      by auto
    define dn where "dn = setup_events args @ ChDir ?out # d3"
    have t: "trace (final (main env cmd_args s)) = trace s @ dn"
      using ms d3(1) t1 by (simp add: log_def dn_def)
    have i: "?I dn" using ok by (simp add: dn_def)
    have "\<exists>rest. dn = setup_events args @ ChDir ?out # rest \<and> prefix rest (stage_events args)"
      using d3(2) dn_def by blast
    moreover have "\<exists>s1. run_steps (setup_steps args) s = Inr s1 \<and> copied args s s1
        \<and> main env cmd_args s = run_steps (stage_steps env args) (log (ChDir ?out) s1)"
      using Inr cp ms by blast
    ultimately have a: "?A dn" by blast
    have b: "?B dn" using ok by simp
    show ?thesis
      by (intro exI [of _ dn] conjI t i a b missing)
  qed
  then show ?thesis
    by (intro conjI main_steps_split closed1 closed2)
qed

theorem templates_before_chdir_witness:
  "argparse sample_env [] = Inr sample_options
   \<and> setup_ok sample_options sample_launch
   \<and> ChDir ''out'' \<in> set (trace (final (main sample_env [] sample_launch)))
   \<and> (\<exists>s1. run_steps (setup_steps sample_options) sample_launch = Inr s1
         \<and> map_of (workdir s1) ''osm.sumocfg'' = Some (XmlDoc sample_config)
         \<and> map_of (workdir s1) ''town.osm'' = Some Blob
         \<and> main sample_env [] sample_launch =
             run_steps (stage_steps sample_env sample_options) (log (ChDir ''out'') s1))
   \<and> argparse idle_env [] = Inr sample_options
   \<and> launch_files bare_launch ''defaults/activitygen.json'' = None
   \<and> ChDir ''out'' \<notin> set (trace (final (main idle_env [] bare_launch)))
   \<and> (\<exists>x. main idle_env [] bare_launch = Inl x)"
proof -
  have h1: "argparse sample_env [] = Inr sample_options" by (simp add: sample_env_def)
  have h2: "argparse idle_env [] = Inr sample_options" by (simp add: idle_env_def)
  have o: "out_dir sample_options = ''out''" by (simp add: sample_options_def)
  have e1: "trace sample_launch = []" by (simp add: sample_launch_def)
  have e2: "trace bare_launch = []" by (simp add: bare_launch_def)
  have ok: "setup_ok sample_options sample_launch"
    by (simp add: setup_ok_def copy_ok_def sample_options_def sample_launch_def
        template_files_def dirname_def basename_def)
  have missing: "launch_files bare_launch ''defaults/activitygen.json'' = None"
    by (simp add: bare_launch_def)
  then have ex: "\<exists>src \<in> set template_files. launch_files bare_launch src = None"
    by (simp add: template_files_def)
  from templates_before_chdir [OF h1, of sample_launch] obtain d1 where
    t1: "trace (final (main sample_env [] sample_launch)) = trace sample_launch @ d1"
    and i1: "ChDir (out_dir sample_options) \<in> set d1 \<longleftrightarrow> setup_ok sample_options sample_launch"
    and a1: "setup_ok sample_options sample_launch \<longrightarrow>
                (\<exists>rest. d1 = setup_events sample_options @ ChDir (out_dir sample_options) # rest
                   \<and> prefix rest (stage_events sample_options))
                \<and> (\<exists>s1. run_steps (setup_steps sample_options) sample_launch = Inr s1
                      \<and> copied sample_options sample_launch s1
                      \<and> main sample_env [] sample_launch =
                          run_steps (stage_steps sample_env sample_options)
                            (log (ChDir (out_dir sample_options)) s1))"
    by (elim exE conjE) (rule that)
  have d1: "d1 = trace (final (main sample_env [] sample_launch))"
    using t1 e1 by simp
  have in1: "ChDir ''out'' \<in> set (trace (final (main sample_env [] sample_launch)))"
    using i1 ok unfolding d1 o by simp
  from a1 ok obtain s1 where
    r1: "run_steps (setup_steps sample_options) sample_launch = Inr s1"
    and c1: "copied sample_options sample_launch s1"
    and m1: "main sample_env [] sample_launch =
        run_steps (stage_steps sample_env sample_options) (log (ChDir ''out'') s1)"
    unfolding o by blast
  have f1: "map_of (workdir s1) ''osm.sumocfg'' = Some (XmlDoc sample_config)"
    using c1 by (simp add: copied_def template_files_def basename_def sample_launch_def)
  have f2: "map_of (workdir s1) ''town.osm'' = Some Blob"
    using c1
    by (simp add: copied_def template_files_def basename_def sample_launch_def
        sample_options_def)
  have x1: "\<exists>s1. run_steps (setup_steps sample_options) sample_launch = Inr s1
         \<and> map_of (workdir s1) ''osm.sumocfg'' = Some (XmlDoc sample_config)
         \<and> map_of (workdir s1) ''town.osm'' = Some Blob
         \<and> main sample_env [] sample_launch =
             run_steps (stage_steps sample_env sample_options) (log (ChDir ''out'') s1)"
    by (intro exI [of _ s1] conjI r1 f1 f2 m1)
  from templates_before_chdir [OF h2, of bare_launch] obtain d2 where
    t2: "trace (final (main idle_env [] bare_launch)) = trace bare_launch @ d2"
    and i2: "ChDir (out_dir sample_options) \<in> set d2 \<longleftrightarrow> setup_ok sample_options bare_launch"
    and b2: "\<not> setup_ok sample_options bare_launch \<longrightarrow>
          prefix d2 (setup_events sample_options) \<and> entered d2 = []
          \<and> (\<exists>x. main idle_env [] bare_launch = Inl x)"
    and c2: "(\<exists>src \<in> set template_files. launch_files bare_launch src = None) \<longrightarrow>
          \<not> setup_ok sample_options bare_launch"
    by (elim exE conjE) (rule that)
  have d2: "d2 = trace (final (main idle_env [] bare_launch))"
    using t2 e2 by simp
  from c2 ex have nok: "\<not> setup_ok sample_options bare_launch" by blast
  then have n2: "ChDir ''out'' \<notin> set (trace (final (main idle_env [] bare_launch)))"
    using i2 unfolding o d2 by simp
  from b2 nok have x2: "\<exists>x. main idle_env [] bare_launch = Inl x"
    by blast
  show ?thesis
    by (intro conjI h1 ok in1 x1 h2 missing n2 x2)
qed

subsection \<open>Which names count as route files\<close>

text \<open>
  C10 as the specification states it: the flows file \<open>osm_pt.rou.xml\<close> of the second
  stage is always included in the rewritten list. Neither \<open>main\<close> nor the rewriter checks
  that the second stage has written it: in this run the second stage returns without
  writing a file, every stage is entered, \<open>main\<close> returns, and the value written to the
  configuration is \<open>osm_activitygen.rou.xml\<close> alone.
\<close>

theorem route_file_discovery_counterexample:
  "main no_pt_env [] sample_launch = Inr (final (main no_pt_env [] sample_launch))
   \<and> entered (trace (final (main no_pt_env [] sample_launch))) = pipeline_order
   \<and> map_of (workdir (final (main no_pt_env [] sample_launch))) DEFAULT_SUMOCFG =
       Some (XmlDoc
         (Element ''configuration'' [] [] []
            [Element ''input'' [] [] []
               [Element ''net-file'' [(''value'', ''osm.net.xml'')] [] [] [],
                Element ''route-files'' [(''value'', ''osm_activitygen.rou.xml'')] [] [] []],
             Element ''time'' [(''begin'', ''0'')] [] [] []]))
   \<and> DEFAULT_PT_FLOWS \<notin> set (str_split (CHR '','') ''osm_activitygen.rou.xml'')"
  by (simp add: run_defs no_pt_env_def sample_env_def sample_options_def sample_launch_def
      sample_config_def sample_side_parking_def sample_parking_areas_def pipeline_order_def
      route_files_value_def str_strip_def set_route_files_def)

lemma filter_str_contains:
  "filter (str_contains needle) names = filter (sublist needle) names"
  by (rule filter_cong) (simp_all add: str_contains_sublist)

text \<open>
  C10, amended: the rewriter returns, and every \<open>route-files\<close> element of the document
  it writes back carries the same value: the names of the working directory that
  contain \<open>.rou.xml\<close> anywhere, in the order of the listing, each followed by a comma,
  with the commas at both ends stripped. Every such name that is free of commas is an
  entry of this comma-separated value. So is \<open>x.rou.xml.bak\<close>, which does not end in
  \<open>.rou.xml\<close>, when it is in the directory; and so is \<open>osm_pt.rou.xml\<close>, the output
  name handed to the second stage, when it is in the directory at the time the
  rewriter runs.
\<close>

theorem route_file_discovery:
  assumes "map_of (workdir s) DEFAULT_SUMOCFG = Some (XmlDoc doc)"
  shows "\<exists>s' doc' v.
     add_rou_to_default_sumocfg s = Inr s'
     \<and> map_of (workdir s') DEFAULT_SUMOCFG = Some (XmlDoc doc')
     \<and> iter ''route-files'' doc' = iter ''route-files'' doc
     \<and> (\<forall>field \<in> set (iter ''route-files'' doc').
           \<exists>e. subtree doc' field = Some e \<and> map_of (attrib e) ''value'' = Some v)
     \<and> v = str_strip '',''
           (concat (map (\<lambda>name. name @ '','')
              (filter (sublist ''.rou.xml'') (map fst (workdir s)))))
     \<and> (\<forall>name \<in> set (map fst (workdir s)).
           sublist ''.rou.xml'' name \<and> CHR '','' \<notin> set name \<longrightarrow>
           name \<in> set (str_split (CHR '','') v))
     \<and> (''x.rou.xml.bak'' \<in> set (map fst (workdir s)) \<longrightarrow>
           ''x.rou.xml.bak'' \<in> set (str_split (CHR '','') v))
     \<and> \<not> suffix ''.rou.xml'' ''x.rou.xml.bak''
     \<and> (DEFAULT_PT_FLOWS \<in> set (map fst (workdir s)) \<longrightarrow>
           DEFAULT_PT_FLOWS \<in> set (str_split (CHR '','') v))
     \<and> take 2 (drop 13 pt_flows_options) = [''-o'', DEFAULT_PT_FLOWS]"
proof -
  define listing where "listing = map fst (workdir s)"
  define v where "v = route_files_value listing"
  define doc' where "doc' = assign_all ''route-files'' ''value'' v doc"
  define s' where "s' = s\<lparr>workdir := AList.update DEFAULT_SUMOCFG (XmlDoc doc') (workdir s),
      trace := trace s @ [Enter Add_rou_to_default_sumocfg, ListDir,
        XmlParse DEFAULT_SUMOCFG, XmlWrite DEFAULT_SUMOCFG]\<rparr>"
  have r: "add_rou_to_default_sumocfg s = Inr s'"
    using add_rou_to_default_sumocfg_result [OF assms]
    by (simp add: s'_def doc'_def v_def listing_def set_route_files_assign_all)
  have f: "map_of (workdir s') DEFAULT_SUMOCFG = Some (XmlDoc doc')"
    by (simp add: s'_def update_conv')
  have i: "iter ''route-files'' doc' = iter ''route-files'' doc"
    by (simp add: doc'_def iter_assign_all)
  have a: "\<forall>field \<in> set (iter ''route-files'' doc').
           \<exists>e. subtree doc' field = Some e \<and> map_of (attrib e) ''value'' = Some v"
  proof
    fix field
    assume "field \<in> set (iter ''route-files'' doc')"
    then obtain e1 where e1: "subtree doc field = Some e1" "tag e1 = ''route-files''"
      unfolding i in_iter_iff by blast
    then show "\<exists>e. subtree doc' field = Some e \<and> map_of (attrib e) ''value'' = Some v"
      by (simp add: doc'_def subtree_assign_all attrib_assign_all update_conv')
  qed
  have j: "v = str_strip '',''
           (concat (map (\<lambda>name. name @ '','') (filter (sublist ''.rou.xml'') listing)))"
    by (simp add: v_def route_files_value_def collect_route_files_eq filter_str_contains)
  have g: "\<forall>name \<in> set listing.
           sublist ''.rou.xml'' name \<and> CHR '','' \<notin> set name \<longrightarrow>
           name \<in> set (str_split (CHR '','') v)"
    unfolding v_def by (auto intro!: route_files_value_entry simp: str_contains_sublist)
  have bak: "sublist ''.rou.xml'' ''x.rou.xml.bak'' \<and> CHR '','' \<notin> set ''x.rou.xml.bak''"
    by (simp add: str_contains_sublist [symmetric])
  have pt: "sublist ''.rou.xml'' DEFAULT_PT_FLOWS \<and> CHR '','' \<notin> set DEFAULT_PT_FLOWS"
    by (simp add: str_contains_sublist [symmetric] names_defs)
  have b: "''x.rou.xml.bak'' \<in> set listing \<longrightarrow>
           ''x.rou.xml.bak'' \<in> set (str_split (CHR '','') v)"
    using g bak by blast
  have p: "DEFAULT_PT_FLOWS \<in> set listing \<longrightarrow>
           DEFAULT_PT_FLOWS \<in> set (str_split (CHR '','') v)"
    using g pt by blast
  have ns: "\<not> suffix ''.rou.xml'' ''x.rou.xml.bak''"
    by (simp add: suffix_to_prefix)
  have o: "take 2 (drop 13 pt_flows_options) = [''-o'', DEFAULT_PT_FLOWS]"
    by (simp add: pt_flows_options_def)
  show ?thesis
    unfolding listing_def [symmetric]
    by (intro exI [of _ s'] exI [of _ doc'] exI [of _ v] conjI r f i a j g b ns p o)
qed

theorem route_file_discovery_witness:
  "map_of sample_workspace DEFAULT_SUMOCFG = Some (XmlDoc sample_config)
   \<and> ''x.rou.xml.bak'' \<in> set (map fst sample_workspace)
   \<and> DEFAULT_PT_FLOWS \<in> set (map fst sample_workspace)
   \<and> (\<exists>s' doc' e.
         add_rou_to_default_sumocfg (sample_state sample_workspace) = Inr s'
         \<and> map_of (workdir s') DEFAULT_SUMOCFG = Some (XmlDoc doc')
         \<and> subtree doc' [0, 1] = Some e
         \<and> map_of (attrib e) ''value'' = Some ''x.rou.xml.bak,osm_pt.rou.xml''
         \<and> ''x.rou.xml.bak'' \<in> set (str_split (CHR '','') ''x.rou.xml.bak,osm_pt.rou.xml'')
         \<and> DEFAULT_PT_FLOWS \<in> set (str_split (CHR '','') ''x.rou.xml.bak,osm_pt.rou.xml''))"
proof -
  let ?s = "sample_state sample_workspace"
  have w: "workdir ?s = sample_workspace" by (simp add: sample_state_def)
  have h: "map_of (workdir ?s) DEFAULT_SUMOCFG = Some (XmlDoc sample_config)"
    by (simp add: sample_state_def sample_workspace_def)
  have m1: "''x.rou.xml.bak'' \<in> set (map fst sample_workspace)"
    and m2: "DEFAULT_PT_FLOWS \<in> set (map fst sample_workspace)"
    by (simp_all add: sample_workspace_def)
  have it: "[0, 1] \<in> set (iter ''route-files'' sample_config)"
    by (simp add: sample_config_def)
  have val: "str_strip '',''
           (concat (map (\<lambda>name. name @ '','')
              (filter (sublist ''.rou.xml'') (map fst sample_workspace))))
      = ''x.rou.xml.bak,osm_pt.rou.xml''"
    by (simp add: sample_workspace_def names_defs str_strip_def
        str_contains_sublist [symmetric])
  from route_file_discovery [OF h] obtain s' doc' v where
    r: "add_rou_to_default_sumocfg ?s = Inr s'"
    and f: "map_of (workdir s') DEFAULT_SUMOCFG = Some (XmlDoc doc')"
    and i: "iter ''route-files'' doc' = iter ''route-files'' sample_config"
    and a: "\<forall>field \<in> set (iter ''route-files'' doc').
           \<exists>e. subtree doc' field = Some e \<and> map_of (attrib e) ''value'' = Some v"
    and j: "v = str_strip '',''
           (concat (map (\<lambda>name. name @ '','')
              (filter (sublist ''.rou.xml'') (map fst (workdir ?s)))))"
    and b: "''x.rou.xml.bak'' \<in> set (map fst (workdir ?s)) \<longrightarrow>
           ''x.rou.xml.bak'' \<in> set (str_split (CHR '','') v)"
    and p: "DEFAULT_PT_FLOWS \<in> set (map fst (workdir ?s)) \<longrightarrow>
           DEFAULT_PT_FLOWS \<in> set (str_split (CHR '','') v)"
    by (elim exE conjE) (rule that)
  have v: "v = ''x.rou.xml.bak,osm_pt.rou.xml''"
    using j unfolding w val .
  from a it obtain e where e: "subtree doc' [0, 1] = Some e"
    "map_of (attrib e) ''value'' = Some v"
    unfolding i by blast
  have b': "''x.rou.xml.bak'' \<in> set (str_split (CHR '','') ''x.rou.xml.bak,osm_pt.rou.xml'')"
    using b m1 unfolding w v by simp
  have p': "DEFAULT_PT_FLOWS \<in> set (str_split (CHR '','') ''x.rou.xml.bak,osm_pt.rou.xml'')"
    using p m2 unfolding w v by simp
  have "\<exists>s' doc' e.
         add_rou_to_default_sumocfg ?s = Inr s'
         \<and> map_of (workdir s') DEFAULT_SUMOCFG = Some (XmlDoc doc')
         \<and> subtree doc' [0, 1] = Some e
         \<and> map_of (attrib e) ''value'' = Some ''x.rou.xml.bak,osm_pt.rou.xml''
         \<and> ''x.rou.xml.bak'' \<in> set (str_split (CHR '','') ''x.rou.xml.bak,osm_pt.rou.xml'')
         \<and> DEFAULT_PT_FLOWS \<in> set (str_split (CHR '','') ''x.rou.xml.bak,osm_pt.rou.xml'')"
    using r f e b' p' unfolding v by (intro exI [of _ s'] exI [of _ doc'] exI [of _ e] conjI)
  then show ?thesis
    using h m1 m2 unfolding w by (intro conjI)
qed

end
